theory Spec2Isabelle
  imports Main "HOL-Library.Sublist"
begin

section \<open>JavaScript values\<close>

text \<open>
  The widget of \<^verbatim>\<open>src/index.js\<close> is untyped: every field of a data record, of a
  service definition and of the user configuration may hold any value. The values the
  program can tell apart are modelled by one datatype.

  \<^item> Numbers are the integers plus \<open>NaN\<close>: the program tests a number for truthiness and
    copies it, and does no arithmetic.
  \<^item> A regular expression is its pattern text (what its \<^verbatim>\<open>source\<close> property reads) and
    its \<^verbatim>\<open>exec\<close> function, from the subject string to the capture groups after the
    full match (\<open>None\<close> for a group that took no part), or \<open>None\<close> when the pattern does
    not match. The patterns carry neither the \<^verbatim>\<open>g\<close> nor the \<^verbatim>\<open>y\<close> flag, so \<^verbatim>\<open>exec\<close>
    and \<^verbatim>\<open>test\<close> keep no state between calls.
  \<^item> A function value is what it does when called: with the list of capture groups, as
    an id extractor is, or with a property name, as \<^verbatim>\<open>hasOwnProperty\<close> is. It raises
    or returns a string, or \<open>None\<close> for \<^verbatim>\<open>undefined\<close>.
  \<^item> An object is the list of its own enumerable properties in enumeration order, with
    \<^verbatim>\<open>Object.prototype\<close> as its prototype. Names are pairwise distinct in an object.
    Objects hold data: the methods that the program calls on a pattern and on a template
    (\<^verbatim>\<open>exec\<close>, \<^verbatim>\<open>test\<close>, \<^verbatim>\<open>replace\<close>) are those of the builtin type of the value.
\<close>

type_synonym regexp = "string \<Rightarrow> string option list option"

datatype error = Error string | TypeError

datatype fn_arg = Groups "string option list" | Key string

type_synonym js_function = "fn_arg \<Rightarrow> error + string option"

datatype jsval =
    JUndefined
  | JNull
  | JBool bool
  | JNum int
  | JNaN
  | JStr string
  | JRegExp string regexp
  | JFun js_function
  | JObj "(string \<times> jsval) list"

text \<open>\<^verbatim>\<open>ToBoolean\<close>, and the operators \<^verbatim>\<open>||\<close> and \<^verbatim>\<open>&&\<close> built on it.\<close>

fun truthy :: "jsval \<Rightarrow> bool" where
  "truthy JUndefined = False"
| "truthy JNull = False"
| "truthy (JBool b) = b"
| "truthy (JNum n) = (n \<noteq> 0)"
| "truthy JNaN = False"
| "truthy (JStr s) = (s \<noteq> [])"
| "truthy (JRegExp src r) = True"
| "truthy (JFun f) = True"
| "truthy (JObj kvs) = True"

definition js_or :: "jsval \<Rightarrow> jsval \<Rightarrow> jsval" where
  "js_or a b = (if truthy a then a else b)"

definition js_and :: "jsval \<Rightarrow> jsval \<Rightarrow> jsval" where
  "js_and a b = (if truthy a then b else a)"

text \<open>\<^verbatim>\<open>typeof v\<close>, \<^verbatim>\<open>v instanceof Object\<close>, \<^verbatim>\<open>v instanceof RegExp\<close>,
  \<^verbatim>\<open>v instanceof Function\<close>.\<close>

fun typeof :: "jsval \<Rightarrow> string" where
  "typeof JUndefined = ''undefined''"
| "typeof JNull = ''object''"
| "typeof (JBool b) = ''boolean''"
| "typeof (JNum n) = ''number''"
| "typeof JNaN = ''number''"
| "typeof (JStr s) = ''string''"
| "typeof (JRegExp src r) = ''object''"
| "typeof (JFun f) = ''function''"
| "typeof (JObj kvs) = ''object''"

fun instanceof_Object :: "jsval \<Rightarrow> bool" where
  "instanceof_Object (JRegExp src r) = True"
| "instanceof_Object (JFun f) = True"
| "instanceof_Object (JObj kvs) = True"
| "instanceof_Object v = False"

fun instanceof_RegExp :: "jsval \<Rightarrow> bool" where
  "instanceof_RegExp (JRegExp src r) = True"
| "instanceof_RegExp v = False"

fun instanceof_Function :: "jsval \<Rightarrow> bool" where
  "instanceof_Function (JFun f) = True"
| "instanceof_Function v = False"

text \<open>
  Reading a property. A plain object that lacks the name inherits it from
  \<^verbatim>\<open>Object.prototype\<close>: its members are functions, and \<^verbatim>\<open>__proto__\<close> reads the
  prototype itself, an object with no enumerable property. For the other values
  \<open>get_prop\<close> covers the names this program reads (\<^verbatim>\<open>service\<close>, \<^verbatim>\<open>source\<close>,
  \<^verbatim>\<open>embed\<close>, \<^verbatim>\<open>width\<close>, \<^verbatim>\<open>height\<close>, \<^verbatim>\<open>caption\<close>, \<^verbatim>\<open>regex\<close>, \<^verbatim>\<open>embedUrl\<close>,
  \<^verbatim>\<open>html\<close>, \<^verbatim>\<open>id\<close>, \<^verbatim>\<open>services\<close>, \<^verbatim>\<open>placeholder\<close>): of these a regular
  expression has \<^verbatim>\<open>source\<close> and a function or a primitive has none. Reading a property
  of \<^verbatim>\<open>undefined\<close> or \<^verbatim>\<open>null\<close> raises, which \<open>nullish\<close> guards at every use.
\<close>

definition object_prototype_names :: "string list" where
  "object_prototype_names =
     [''constructor'', ''hasOwnProperty'', ''isPrototypeOf'', ''propertyIsEnumerable'',
      ''toLocaleString'', ''toString'', ''valueOf'', ''__defineGetter__'',
      ''__defineSetter__'', ''__lookupGetter__'', ''__lookupSetter__'']"

definition object_prototype :: "string \<Rightarrow> jsval" where
  "object_prototype k =
     (if k = ''__proto__'' then JObj []
      else if k \<in> set object_prototype_names then JFun (\<lambda>arg. Inr None)
      else JUndefined)"

fun nullish :: "jsval \<Rightarrow> bool" where
  "nullish JUndefined = True"
| "nullish JNull = True"
| "nullish v = False"

fun get_prop :: "jsval \<Rightarrow> string \<Rightarrow> jsval" where
  "get_prop (JObj kvs) k = (case map_of kvs k of Some v \<Rightarrow> v | None \<Rightarrow> object_prototype k)"
| "get_prop (JRegExp src r) k = (if k = ''source'' then JStr src else JUndefined)"
| "get_prop v k = JUndefined"

text \<open>\<^verbatim>\<open>k in obj\<close> for a plain object given by its own properties.\<close>

definition js_in :: "string \<Rightarrow> (string \<times> jsval) list \<Rightarrow> bool" where
  "js_in k kvs = (k \<in> fst ` set kvs \<or> k = ''__proto__'' \<or> k \<in> set object_prototype_names)"

section \<open>The host\<close>

text \<open>
  Three operations belong to the browser and are parameters of the model:
  \<^verbatim>\<open>ToString\<close> of a value that is not a string (used when such a value is a property
  key), \<^verbatim>\<open>CSS.supports(property, value)\<close>, and the parser of markup:
  \<open>parses_to_element H v\<close> says that, once \<open>v\<close> is assigned to the \<^verbatim>\<open>innerHTML\<close> of a
  template, the first child of its content is an element. Of the document object model
  the widget keeps what the program can observe: which view it shows, what the caption
  query finds in it, and whether the view has a parent node. The editor hands every
  widget its \<^verbatim>\<open>api\<close>, whose \<^verbatim>\<open>styles\<close> are class names; reading them and creating nodes
  raise nothing.
\<close>

record host =
  to_string :: "jsval \<Rightarrow> string"
  css_supports :: "string \<Rightarrow> jsval \<Rightarrow> bool"
  parses_to_element :: "jsval \<Rightarrow> bool"

fun to_property_key :: "host \<Rightarrow> jsval \<Rightarrow> string" where
  "to_property_key H (JStr s) = s"
| "to_property_key H v = to_string H v"

section \<open>The embed record and the widget\<close>

text \<open>
  \<^verbatim>\<open>this._data\<close>. A property the object lacks reads \<^verbatim>\<open>undefined\<close>, so the empty
  object \<^verbatim>\<open>{}\<close> of the constructor is the record of six \<open>JUndefined\<close>.
\<close>

record embed_data =
  service :: jsval
  source :: jsval
  embed :: jsval
  width :: jsval
  height :: jsval
  caption :: jsval

definition empty_data :: embed_data where
  "empty_data = \<lparr>service = JUndefined, source = JUndefined, embed = JUndefined,
     width = JUndefined, height = JUndefined, caption = JUndefined\<rparr>"

text \<open>The record as the object \<^verbatim>\<open>save\<close> hands out, to be fed to a constructor again.\<close>

definition as_object :: "embed_data \<Rightarrow> jsval" where
  "as_object d = JObj [(''service'', service d), (''source'', source d), (''embed'', embed d),
     (''width'', width d), (''height'', height d), (''caption'', caption d)]"

text \<open>
  \<^verbatim>\<open>this.element\<close>, the view \<^verbatim>\<open>render\<close> built last. The input holder carries the
  markup typed into its editable field so far. The container of an embed carries the
  source shown by the preloader, the frame template and the \<^verbatim>\<open>src\<close> set on the frame.
  \<^verbatim>\<open>querySelector\<close> for the editor's input class finds the editable field of the input
  holder, and nothing in a container (the caption node is commented out in the source).
\<close>

datatype view = InputHolder string | Container jsval jsval jsval

fun caption_of :: "view \<Rightarrow> jsval" where
  "caption_of (InputHolder typed) = JStr typed"
| "caption_of (Container src html frame_src) = JStr []"

text \<open>The widget. \<open>mounted\<close> says that \<^verbatim>\<open>this.element\<close> has a parent node: a view that
  \<^verbatim>\<open>render\<close> has just built has none until the editor, or the setter, puts it into the
  document.\<close>

record tool =
  the_data :: embed_data
  element :: "view option"
  mounted :: bool
  config :: jsval

text \<open>\<^verbatim>\<open>get data()\<close>: with a view, the caption is read back into the record first.\<close>

definition get_data :: "tool \<Rightarrow> tool" where
  "get_data t =
     (case element t of
        None \<Rightarrow> t
      | Some v \<Rightarrow> t\<lparr>the_data := (the_data t)\<lparr>caption := caption_of v\<rparr>\<rparr>)"

text \<open>
  \<^verbatim>\<open>render()\<close>, given \<^verbatim>\<open>Embed.services\<close>. The result is the error raised, if any, and
  the widget as the call leaves it; the node returned is the new \<open>element\<close>, which has
  no parent yet. Without a service the input holder is built, which reads
  \<^verbatim>\<open>this.config.placeholder\<close>. With one,
  \<^verbatim>\<open>const {html} = Embed.services[this.data.service]\<close> raises when the registry has no
  such entry, and \<^verbatim>\<open>template.content.firstChild.setAttribute\<close> raises when the frame
  template does not parse to an element. \<^verbatim>\<open>this.element\<close> is assigned last.
\<close>

definition render :: "host \<Rightarrow> (string \<times> jsval) list \<Rightarrow> tool \<Rightarrow> error option \<times> tool" where
  "render H services t =
     (let t1 = get_data t; d = the_data t1 in
      if \<not> truthy (service d) then
        (if nullish (config t1) then (Some TypeError, t1)
         else (None, t1\<lparr>element := Some (InputHolder []), mounted := False\<rparr>))
      else
        (let def = get_prop (JObj services) (to_property_key H (service d)) in
         if nullish def then (Some TypeError, t1)
         else if \<not> parses_to_element H (get_prop def ''html'') then (Some TypeError, t1)
         else (None, t1\<lparr>element := Some (Container (source d) (get_prop def ''html'') (embed d)),
                          mounted := False\<rparr>)))"

text \<open>
  \<^verbatim>\<open>set data(data)\<close>. The merged record replaces \<^verbatim>\<open>this._data\<close> first. With a view,
  \<^verbatim>\<open>oldView.parentNode.replaceChild(this.render(), oldView)\<close> follows: reading
  \<^verbatim>\<open>replaceChild\<close> of the \<^verbatim>\<open>null\<close> parent of a view outside the document raises before
  \<open>render\<close> is called, an error of \<open>render\<close> goes through, and otherwise the new view
  takes the place of the old one in its parent. Either error leaves the merged record in
  place.
\<close>

definition set_data :: "host \<Rightarrow> (string \<times> jsval) list \<Rightarrow> jsval \<Rightarrow> tool \<Rightarrow> error option \<times> tool" where
  "set_data H services data t =
     (if \<not> instanceof_Object data then (Some (Error ''Embed Tool data should be object''), t)
      else
        (let old = the_data (get_data t);
             t1 = t\<lparr>the_data :=
               \<lparr>service = js_or (get_prop data ''service'') (service old),
                source = js_or (get_prop data ''source'') (source old),
                embed = js_or (get_prop data ''embed'') (embed old),
                width = js_or (get_prop data ''width'') (width old),
                height = js_or (get_prop data ''height'') (height old),
                caption = JUndefined\<rparr>\<rparr>
         in case element t1 of
              None \<Rightarrow> (None, t1)
            | Some oldView \<Rightarrow>
                (if \<not> mounted t1 then (Some TypeError, t1)
                 else case render H services t1 of
                        (Some e, t2) \<Rightarrow> (Some e, t2)
                      | (None, t2) \<Rightarrow> (None, t2\<lparr>mounted := True\<rparr>))))"

text \<open>The constructor: \<^verbatim>\<open>this.data = data\<close> runs before \<^verbatim>\<open>this.config\<close> is set.\<close>

definition construct :: "host \<Rightarrow> (string \<times> jsval) list \<Rightarrow> jsval \<Rightarrow> jsval \<Rightarrow> error + tool" where
  "construct H services data cfg =
     (case set_data H services data
             \<lparr>the_data = empty_data, element = None, mounted = False, config = JUndefined\<rparr> of
        (Some e, t) \<Rightarrow> Inl e
      | (None, t) \<Rightarrow> Inr (t\<lparr>config := cfg\<rparr>))"

text \<open>\<^verbatim>\<open>save()\<close> returns \<^verbatim>\<open>this.data\<close>: the record is \<open>the_data (save t)\<close>.\<close>

definition save :: "tool \<Rightarrow> tool" where
  "save t = get_data t"

section \<open>Matching pasted text against the registry\<close>

text \<open>
  Strings are lists of 8-bit characters. The line terminators a dot of a regular
  expression refuses, and the white space \<^verbatim>\<open>\s\<close> accepts, among them.
\<close>

definition is_line_terminator :: "char \<Rightarrow> bool" where
  "is_line_terminator c = (c = CHR 0x0A \<or> c = CHR 0x0D)"

definition is_white_space :: "char \<Rightarrow> bool" where
  "is_white_space c = (c \<in> {CHR 0x09, CHR 0x0A, CHR 0x0B, CHR 0x0C, CHR 0x0D, CHR 0x20, CHR 0xA0})"

text \<open>
  The pattern of \<^verbatim>\<open>matchService\<close>,
  \<^verbatim>\<open>/<iframe.*?\ssrc=(['|"])(.+?)\1.+iframe>/\<close>, as the backtracking matcher runs it.
  \<open>dots_then lit s\<close>: \<^verbatim>\<open>.*\<close> followed by the text \<open>lit\<close> matches at the start of \<open>s\<close>.
\<close>

fun dots_then :: "string \<Rightarrow> string \<Rightarrow> bool" where
  "dots_then lit [] = (lit = [])"
| "dots_then lit (c # cs) = (prefix lit (c # cs) \<or> (\<not> is_line_terminator c \<and> dots_then lit cs))"

text \<open>\<^verbatim>\<open>\1.+iframe>\<close> at the start of \<open>s\<close>, the first group having matched \<open>q\<close>.\<close>

fun closes :: "char \<Rightarrow> string \<Rightarrow> bool" where
  "closes q (d # c # cs) = (d = q \<and> \<not> is_line_terminator c \<and> dots_then ''iframe>'' cs)"
| "closes q s = False"

text \<open>
  \<^verbatim>\<open>(.+?)\1.+iframe>\<close>: the lazy group takes one more character at a time and stops
  at the first length after which the rest of the pattern matches.
\<close>

fun src_value :: "char \<Rightarrow> string \<Rightarrow> string \<Rightarrow> string option" where
  "src_value q taken [] = None"
| "src_value q taken (c # cs) =
     (if is_line_terminator c then None
      else if closes q cs then Some (taken @ [c])
      else src_value q (taken @ [c]) cs)"

text \<open>\<^verbatim>\<open>\ssrc=(['|"])(.+?)\1.+iframe>\<close> at the start of \<open>s\<close>; the class of the first
  group holds the two quotes and the bar.\<close>

definition src_here :: "string \<Rightarrow> string option" where
  "src_here s =
     (case s of
        w # CHR ''s'' # CHR ''r'' # CHR ''c'' # CHR ''='' # q # rest \<Rightarrow>
          (if is_white_space w \<and> q \<in> {CHR 0x27, CHR ''|'', CHR 0x22} then src_value q [] rest
           else None)
      | _ \<Rightarrow> None)"

text \<open>\<^verbatim>\<open>.*?\<close> in front of it: the attribute is tried at each position in turn.\<close>

fun src_attr :: "string \<Rightarrow> string option" where
  "src_attr [] = None"
| "src_attr (c # cs) =
     (case src_here (c # cs) of
        Some u \<Rightarrow> Some u
      | None \<Rightarrow> if is_line_terminator c then None else src_attr cs)"

text \<open>\<^verbatim>\<open>str.match(...)\<close>: the leftmost start that matches; the result is group 2.\<close>

fun iframe_src :: "string \<Rightarrow> string option" where
  "iframe_src [] = None"
| "iframe_src (c # cs) =
     (case (if prefix ''<iframe'' (c # cs) then src_attr (drop 7 (c # cs)) else None) of
        Some u \<Rightarrow> Some u
      | None \<Rightarrow> iframe_src cs)"

text \<open>\<^verbatim>\<open>const url = (ary && ary[2]) || str\<close>.\<close>

definition candidate_url :: "string \<Rightarrow> string" where
  "candidate_url str =
     (case iframe_src str of
        Some u \<Rightarrow> if u \<noteq> [] then u else str
      | None \<Rightarrow> str)"

text \<open>
  The guard \<^verbatim>\<open>services.hasOwnProperty(key)\<close> of the loop. Without a service of that
  name the method is the one of \<^verbatim>\<open>Object.prototype\<close>. A service named
  \<^verbatim>\<open>hasOwnProperty\<close> shadows it: the call goes to that value, and raises when it is no
  function.
\<close>

definition hasOwnProperty :: "(string \<times> jsval) list \<Rightarrow> string \<Rightarrow> error + bool" where
  "hasOwnProperty services key =
     (case map_of services ''hasOwnProperty'' of
        None \<Rightarrow> Inr (key \<in> fst ` set services)
      | Some v \<Rightarrow>
          (case v of
             JFun f \<Rightarrow>
               (case f (Key key) of
                  Inl e \<Rightarrow> Inl e
                | Inr r \<Rightarrow> Inr (r \<noteq> None \<and> r \<noteq> Some []))
           | _ \<Rightarrow> Inl TypeError))"

text \<open>
  The loop of \<^verbatim>\<open>matchService\<close> over the properties of \<^verbatim>\<open>Embed.services\<close> in
  enumeration order, \<open>rest\<close> being those still to come. The result is the mock paste
  event, its \<^verbatim>\<open>detail\<close> the pair of \<^verbatim>\<open>key\<close> and \<^verbatim>\<open>data\<close>; \<open>None\<close> stands for both
  \<^verbatim>\<open>null\<close> and \<^verbatim>\<open>undefined\<close>. A pattern that is no regular expression has no
  \<^verbatim>\<open>test\<close> to call.
\<close>

fun first_match ::
  "(string \<times> jsval) list \<Rightarrow> (string \<times> jsval) list \<Rightarrow> string \<Rightarrow> error + (string \<times> string) option" where
  "first_match services [] url = Inr None"
| "first_match services ((key, def) # rest) url =
     (case hasOwnProperty services key of
        Inl e \<Rightarrow> Inl e
      | Inr own \<Rightarrow>
          (if \<not> own then first_match services rest url
           else if nullish def then Inl TypeError
           else case get_prop def ''regex'' of
                  JRegExp src regex \<Rightarrow>
                    (if regex url \<noteq> None then Inr (Some (key, url))
                     else first_match services rest url)
                | _ \<Rightarrow> Inl TypeError))"

definition matchService :: "(string \<times> jsval) list \<Rightarrow> string \<Rightarrow> error + (string \<times> string) option" where
  "matchService services str =
     (let url = candidate_url str in
      if url = [] then Inr None else first_match services services url)"

section \<open>Substituting the resource id\<close>

text \<open>
  \<^verbatim>\<open>embedUrl.replace(/<\%\= remote\_id \%\>/g, id(result))\<close>. The pattern is the literal
  text of the placeholder and has no capture group. The replacement is converted to a
  string (\<^verbatim>\<open>undefined\<close> to the text \<^verbatim>\<open>undefined\<close>), and in it \<^verbatim>\<open>$$\<close> stands for a
  dollar, \<^verbatim>\<open>$&\<close> for the matched text, \<^verbatim>\<open>$`\<close> for the text before the match and
  \<^verbatim>\<open>$'\<close> for the text after it.
\<close>

definition placeholder :: string where
  "placeholder = ''<%= remote_id %>''"

fun get_substitution :: "string \<Rightarrow> string \<Rightarrow> string \<Rightarrow> string \<Rightarrow> string" where
  "get_substitution matched preceding following (c # d # rest) =
     (if c = CHR ''$'' \<and> d = CHR ''$'' then CHR ''$'' # get_substitution matched preceding following rest
      else if c = CHR ''$'' \<and> d = CHR ''&'' then matched @ get_substitution matched preceding following rest
      else if c = CHR ''$'' \<and> d = CHR 0x60 then preceding @ get_substitution matched preceding following rest
      else if c = CHR ''$'' \<and> d = CHR 0x27 then following @ get_substitution matched preceding following rest
      else c # get_substitution matched preceding following (d # rest))"
| "get_substitution matched preceding following s = s"

fun replace_scan :: "string \<Rightarrow> nat \<Rightarrow> string \<Rightarrow> string \<Rightarrow> string" where
  "replace_scan replacement skip preceding [] = []"
| "replace_scan replacement skip preceding (c # cs) =
     (if 0 < skip then replace_scan replacement (skip - 1) (preceding @ [c]) cs
      else if prefix placeholder (c # cs) then
        get_substitution placeholder preceding (drop (length placeholder) (c # cs)) replacement
          @ replace_scan replacement (length placeholder - 1) (preceding @ [c]) cs
      else c # replace_scan replacement 0 (preceding @ [c]) cs)"

definition replace_remote_id :: "string \<Rightarrow> string option \<Rightarrow> string" where
  "replace_remote_id embedUrl rid =
     replace_scan (case rid of None \<Rightarrow> ''undefined'' | Some s \<Rightarrow> s) 0 [] embedUrl"


text \<open>The default extractor \<^verbatim>\<open>(ids) => ids.shift()\<close>; a string has no \<^verbatim>\<open>shift\<close>.\<close>

fun default_id :: js_function where
  "default_id (Groups ids) = Inr (case ids of [] \<Rightarrow> None | x # xs \<Rightarrow> x)"
| "default_id (Key k) = Inl TypeError"

text \<open>\<^verbatim>\<open>id\<close> as destructured with its default: \<open>None\<close> when the value cannot be called.\<close>

fun id_or_default :: "jsval \<Rightarrow> js_function option" where
  "id_or_default JUndefined = Some default_id"
| "id_or_default (JFun f) = Some f"
| "id_or_default v = None"

text \<open>
  \<^verbatim>\<open>performServices(event)\<close>, the event given by its \<^verbatim>\<open>detail\<close>. Before the setter is
  reached the steps that can raise are, in this order: reading the definition of an
  unregistered key, \<^verbatim>\<open>exec\<close> on something that is no regular expression, \<^verbatim>\<open>slice\<close>
  on the \<^verbatim>\<open>null\<close> of a failed match, reading \<^verbatim>\<open>replace\<close> of a template that is
  \<^verbatim>\<open>undefined\<close> or \<^verbatim>\<open>null\<close>, calling an \<^verbatim>\<open>id\<close> that is no function or that raises,
  and calling \<^verbatim>\<open>replace\<close> on a template that is no string.
\<close>

definition performServices ::
  "host \<Rightarrow> (string \<times> jsval) list \<Rightarrow> string \<times> string \<Rightarrow> tool \<Rightarrow> error option \<times> tool" where
  "performServices H services event t =
     (let key = fst event; url = snd event; def = get_prop (JObj services) key in
      if nullish def then (Some TypeError, t)
      else case get_prop def ''regex'' of
             JRegExp src regex \<Rightarrow>
               (case regex url of
                  None \<Rightarrow> (Some TypeError, t)
                | Some result \<Rightarrow>
                    (if nullish (get_prop def ''embedUrl'') then (Some TypeError, t)
                     else case id_or_default (get_prop def ''id'') of
                            None \<Rightarrow> (Some TypeError, t)
                          | Some id_fn \<Rightarrow>
                              (case id_fn (Groups result) of
                                 Inl e \<Rightarrow> (Some e, t)
                               | Inr rid \<Rightarrow>
                                   (case get_prop def ''embedUrl'' of
                                      JStr embedUrl \<Rightarrow>
                                        set_data H services
                                          (JObj [(''service'', JStr key), (''source'', JStr url),
                                                 (''embed'', JStr (replace_remote_id embedUrl rid)),
                                                 (''width'', get_prop def ''width''),
                                                 (''height'', get_prop def ''height'')]) t
                                    | _ \<Rightarrow> (Some TypeError, t)))))
           | _ \<Rightarrow> (Some TypeError, t))"

section \<open>Objects as the resolver builds them\<close>

text \<open>
  Property names that are array indices (the decimal numerals below \<open>2^32 - 1\<close>, without
  leading zero) are enumerated first, in numeric order; the other names follow in the
  order of their creation.
\<close>

definition is_digit :: "char \<Rightarrow> bool" where
  "is_digit c = (48 \<le> (of_char c :: int) \<and> (of_char c :: int) \<le> 57)"

definition decimal_value :: "string \<Rightarrow> int" where
  "decimal_value k = foldl (\<lambda>n c. 10 * n + ((of_char c :: int) - 48)) 0 k"

definition is_array_index :: "string \<Rightarrow> bool" where
  "is_array_index k =
     (k \<noteq> [] \<and> list_all is_digit k \<and> (hd k = CHR ''0'' \<longrightarrow> k = ''0'')
      \<and> decimal_value k < 4294967295)"

fun put_index :: "string \<Rightarrow> jsval \<Rightarrow> (string \<times> jsval) list \<Rightarrow> (string \<times> jsval) list" where
  "put_index k v [] = [(k, v)]"
| "put_index k v ((k', v') # rest) =
     (if is_array_index k' \<and> decimal_value k' < decimal_value k
      then (k', v') # put_index k v rest
      else (k, v) # (k', v') # rest)"

text \<open>
  \<^verbatim>\<open>obj[k] = v\<close> on a plain object: an own property keeps its place, a new one is
  created. Assigning to \<^verbatim>\<open>__proto__\<close> creates no own property; the change of prototype
  it makes is not modelled.
\<close>

definition set_prop :: "string \<Rightarrow> jsval \<Rightarrow> (string \<times> jsval) list \<Rightarrow> (string \<times> jsval) list" where
  "set_prop k v kvs =
     (if k = ''__proto__'' then kvs
      else if k \<in> fst ` set kvs then map (\<lambda>(k', v'). if k' = k then (k', v) else (k', v')) kvs
      else if is_array_index k then put_index k v kvs
      else kvs @ [(k, v)])"

text \<open>The decimal numeral of a natural number, for the index names of a string.\<close>

fun show_nat :: "nat \<Rightarrow> string" where
  "show_nat n =
     (if n < 10 then [char_of (48 + n)]
      else show_nat (n div 10) @ [char_of (48 + n mod 10)])"

text \<open>
  The own enumerable properties of a value that is neither \<^verbatim>\<open>undefined\<close> nor
  \<^verbatim>\<open>null\<close>: those of an object, the characters of a string under their indices, none
  for the other values.
\<close>

fun own_enumerable :: "jsval \<Rightarrow> (string \<times> jsval) list" where
  "own_enumerable (JObj kvs) = kvs"
| "own_enumerable (JStr s) = map (\<lambda>i. (show_nat i, JStr [s ! i])) [0..<length s]"
| "own_enumerable v = []"

text \<open>\<^verbatim>\<open>Object.entries(v)\<close> raises on \<^verbatim>\<open>undefined\<close> and \<^verbatim>\<open>null\<close>.\<close>

definition object_entries :: "jsval \<Rightarrow> error + (string \<times> jsval) list" where
  "object_entries v = (if nullish v then Inl TypeError else Inr (own_enumerable v))"

text \<open>\<^verbatim>\<open>Object.assign({}, ...sources)\<close> skips a source that is \<^verbatim>\<open>undefined\<close> or
  \<^verbatim>\<open>null\<close> and copies every own enumerable property of the others, whatever its value.\<close>

definition object_assign :: "jsval list \<Rightarrow> (string \<times> jsval) list" where
  "object_assign sources =
     foldl (\<lambda>target src.
              foldl (\<lambda>target' (k, v). set_prop k v target') target
                (if nullish src then [] else own_enumerable src))
       [] sources"

section \<open>Registry resolution\<close>

text \<open>
  \<^verbatim>\<open>Embed.checkServiceConfig(config)\<close>. The result is the value of the chain of
  \<^verbatim>\<open>&&\<close>, which the caller's \<^verbatim>\<open>filter\<close> tests for truthiness. Destructuring
  \<^verbatim>\<open>undefined\<close> or \<^verbatim>\<open>null\<close> raises.
\<close>

fun is_undefined :: "jsval \<Rightarrow> bool" where
  "is_undefined JUndefined = True"
| "is_undefined v = False"

definition checkServiceConfig :: "host \<Rightarrow> jsval \<Rightarrow> error + jsval" where
  "checkServiceConfig H cfg =
     (if nullish cfg then Inl TypeError
      else
        (let regex = get_prop cfg ''regex'';
             embedUrl = get_prop cfg ''embedUrl'';
             html = get_prop cfg ''html'';
             height = get_prop cfg ''height'';
             width = get_prop cfg ''width'';
             ident = get_prop cfg ''id'';
             isValid0 =
               js_and (js_and (js_and (js_and (js_and regex (JBool (instanceof_RegExp regex)))
                 embedUrl) (JBool (typeof embedUrl = ''string'')))
                 html) (JBool (typeof html = ''string''));
             isValid1 = js_and isValid0
               (if \<not> is_undefined ident then JBool (instanceof_Function ident) else JBool True);
             isValid2 = js_and isValid1
               (if \<not> is_undefined height then JBool (css_supports H ''height'' height) else JBool True);
             isValid3 = js_and isValid2
               (if \<not> is_undefined width then JBool (css_supports H ''width'' width) else JBool True)
         in Inr isValid3))"

text \<open>\<^verbatim>\<open>.filter(([key, service]) => Embed.checkServiceConfig(service))\<close>: a check that
  raises ends the whole resolution.\<close>

fun filter_checked :: "host \<Rightarrow> (string \<times> jsval) list \<Rightarrow> error + (string \<times> jsval) list" where
  "filter_checked H [] = Inr []"
| "filter_checked H ((key, svc) # rest) =
     (case checkServiceConfig H svc of
        Inl e \<Rightarrow> Inl e
      | Inr isValid \<Rightarrow>
          (case filter_checked H rest of
             Inl e \<Rightarrow> Inl e
           | Inr kept \<Rightarrow> Inr (if truthy isValid then (key, svc) # kept else kept)))"

text \<open>The \<^verbatim>\<open>map\<close> after it: the six known fields, each one present in the new object.\<close>

definition known_fields :: "jsval \<Rightarrow> jsval" where
  "known_fields svc =
     JObj [(''regex'', get_prop svc ''regex''), (''embedUrl'', get_prop svc ''embedUrl''),
           (''html'', get_prop svc ''html''), (''height'', get_prop svc ''height''),
           (''width'', get_prop svc ''width''), (''id'', get_prop svc ''id'')]"

text \<open>The step of the \<^verbatim>\<open>reduce\<close> that builds \<^verbatim>\<open>Embed.services\<close>.\<close>

definition merge_entry :: "(string \<times> jsval) list \<Rightarrow> string \<times> jsval \<Rightarrow> (string \<times> jsval) list" where
  "merge_entry result entry =
     (let key = fst entry; svc = snd entry in
      if \<not> js_in key result then set_prop key svc result
      else set_prop key (JObj (object_assign [get_prop (JObj result) key, svc])) result)"

text \<open>The \<^verbatim>\<open>reduce\<close> that builds \<^verbatim>\<open>Embed.patterns\<close>; \<^verbatim>\<open>item.regex\<close> raises on an item
  that is \<^verbatim>\<open>undefined\<close> or \<^verbatim>\<open>null\<close>.\<close>

fun patterns_from :: "(string \<times> jsval) list \<Rightarrow> (string \<times> jsval) list \<Rightarrow> error + (string \<times> jsval) list" where
  "patterns_from result [] = Inr result"
| "patterns_from result ((key, item) # rest) =
     (if nullish item then Inl TypeError
      else patterns_from (set_prop key (get_prop item ''regex'') result) rest)"

fun is_true :: "jsval \<Rightarrow> bool" where
  "is_true (JBool b) = b"
| "is_true v = False"

text \<open>
  \<^verbatim>\<open>Embed.prepare(arg)\<close>. \<open>SERVICES\<close> is \<^verbatim>\<open>Object.entries\<close> of the builtin catalog of
  \<^verbatim>\<open>./services\<close>, a file the sources do not hold. The result is the pair of
  \<^verbatim>\<open>Embed.services\<close> and \<^verbatim>\<open>Embed.patterns\<close>.
\<close>

definition prepare ::
  "host \<Rightarrow> (string \<times> jsval) list \<Rightarrow> jsval
     \<Rightarrow> error + ((string \<times> jsval) list \<times> (string \<times> jsval) list)" where
  "prepare H SERVICES arg =
     (if nullish arg then Inl TypeError
      else
        (let config = (if is_undefined (get_prop arg ''config'') then JObj []
                       else get_prop arg ''config'') in
         if nullish config then Inl TypeError
         else
           (let services = (if is_undefined (get_prop config ''services'') then JObj []
                            else get_prop config ''services'') in
            case object_entries services of
              Inl e \<Rightarrow> Inl e
            | Inr ents \<Rightarrow>
                (let enabledServices =
                       map fst (filter (\<lambda>(key, v). typeof v = ''boolean'' \<and> is_true v) ents) in
                 case filter_checked H (filter (\<lambda>(key, v). typeof v = ''object'') ents) of
                   Inl e \<Rightarrow> Inl e
                 | Inr checked \<Rightarrow>
                     (let userServices = map (\<lambda>(key, svc). (key, known_fields svc)) checked;
                          enabled = (if enabledServices \<noteq> []
                                     then filter (\<lambda>(key, v). key \<in> set enabledServices) SERVICES
                                     else SERVICES);
                          entries = enabled @ userServices
                      in case patterns_from [] entries of
                           Inl e \<Rightarrow> Inl e
                         | Inr patterns \<Rightarrow> Inr (foldl merge_entry [] entries, patterns))))))"

section \<open>Waiting for the frame to settle\<close>

text \<open>
  Modelled from the spec: the timer of the package \<^verbatim>\<open>debounce\<close>, the delivery of
  mutation batches by \<^verbatim>\<open>MutationObserver\<close> and the settling of the promise are not among
  the sources. By the spec (4.5) each observed mutation batch resets a fixed quiet-period
  timer, the future resolves once a batch has occurred with no further mutation for the
  full quiet period, and observation is torn down the instant the future resolves. Time
  is counted in the units of the delay. The detector holds the time at which the running
  timer is due, the times at which \<^verbatim>\<open>resolve\<close> has been called, and whether the observer
  is still connected.
\<close>

record detector =
  timer :: "nat option"
  resolved_at :: "nat list"
  observing :: bool

text \<open>
  Modelled from the spec: the timer runs out. The debounced function calls \<^verbatim>\<open>resolve\<close>,
  and the continuation \<^verbatim>\<open>observer.disconnect()\<close> runs.
\<close>

definition fire :: "detector \<Rightarrow> detector" where
  "fire d =
     (case timer d of
        None \<Rightarrow> d
      | Some due \<Rightarrow>
          d\<lparr>timer := None, resolved_at := resolved_at d @ [due], observing := False\<rparr>)"

text \<open>
  Modelled from the spec: a mutation batch at the time \<open>now\<close>. A timer that was due by
  then has run out before; a connected observer calls the debounced function, which sets
  the timer anew.
\<close>

definition mutation :: "nat \<Rightarrow> detector \<Rightarrow> nat \<Rightarrow> detector" where
  "mutation delay d now =
     (let d' = (case timer d of
                  None \<Rightarrow> d
                | Some due \<Rightarrow> if due \<le> now then fire d else d)
      in if observing d' then d'\<lparr>timer := Some (now + delay)\<rparr> else d')"

text \<open>
  \<^verbatim>\<open>embedIsReady(targetNode)\<close>, given the times of the mutation batches of the node, in
  the order in which they occur: the times at which \<^verbatim>\<open>resolve\<close> is called. The observer
  is connected with the debounced \<^verbatim>\<open>resolve\<close> for its callback and no timer running;
  after the last batch a timer that is still running runs out.
\<close>

definition PRELOADER_DELAY :: nat where
  "PRELOADER_DELAY = 450"

definition embedIsReady :: "nat list \<Rightarrow> nat list" where
  "embedIsReady batches =
     resolved_at (fire (foldl (mutation PRELOADER_DELAY)
                          \<lparr>timer = None, resolved_at = [], observing = True\<rparr> batches))"

text \<open>
  Quiescence in the words of the spec: after the batch at \<open>b\<close> and the batches that
  follow it, the end of the first quiet period that no further batch cuts short.
\<close>

fun quiescence :: "nat \<Rightarrow> nat \<Rightarrow> nat list \<Rightarrow> nat" where
  "quiescence delay b [] = b + delay"
| "quiescence delay b (c # cs) =
     (if b + delay \<le> c then b + delay else quiescence delay c cs)"

section \<open>Widgets a program can reach, and saved records\<close>

text \<open>
  The widgets that exist: one comes out of the constructor, and each public operation
  (the data setter, \<^verbatim>\<open>render\<close>, a paste, \<^verbatim>\<open>save\<close>), each edit of the input field
  and each move of the view into or out of the document leads from one to the next,
  under whatever registry is installed at the time. A call that raises still leaves a
  widget behind. A saved record is \<open>the_data (save t)\<close> of such a widget.
\<close>

inductive reachable :: "tool \<Rightarrow> bool" where
  constructed: "construct H services d cfg = Inr t \<Longrightarrow> reachable t"
| updated: "reachable t \<Longrightarrow> set_data H services d t = (e, t') \<Longrightarrow> reachable t'"
| rendered: "reachable t \<Longrightarrow> render H services t = (e, t') \<Longrightarrow> reachable t'"
| pasted: "reachable t \<Longrightarrow> performServices H services ev t = (e, t') \<Longrightarrow> reachable t'"
| saved: "reachable t \<Longrightarrow> reachable (save t)"
| typed: "reachable t \<Longrightarrow> element t = Some (InputHolder s)
            \<Longrightarrow> reachable (t\<lparr>element := Some (InputHolder s')\<rparr>)"
| placed: "reachable t \<Longrightarrow> reachable (t\<lparr>mounted := b\<rparr>)"

text \<open>A custom definition the resolver turns down: an object value whose check comes
  out falsy.\<close>

definition rejected :: "host \<Rightarrow> jsval \<Rightarrow> bool" where
  "rejected H v =
     (typeof v = ''object'' \<and>
      (case checkServiceConfig H v of Inl e \<Rightarrow> False | Inr isValid \<Rightarrow> \<not> truthy isValid))"

text \<open>The argument \<^verbatim>\<open>{config: {services: {...}}}\<close> of \<^verbatim>\<open>Embed.prepare\<close>.\<close>

definition with_services :: "(string \<times> jsval) list \<Rightarrow> jsval" where
  "with_services ents = JObj [(''config'', JObj [(''services'', JObj ents)])]"

text \<open>
  The entries that the resolver merges, in the words of the spec: the builtin services
  that the configuration leaves enabled, in catalog order (all of them when it sets none
  to \<^verbatim>\<open>true\<close>), and after them the custom definitions that pass validation, in the
  order of the configuration.
\<close>

definition enabled_builtins ::
  "(string \<times> jsval) list \<Rightarrow> (string \<times> jsval) list \<Rightarrow> (string \<times> jsval) list" where
  "enabled_builtins SERVICES ents =
     (if \<exists>(k, v) \<in> set ents. v = JBool True
      then filter (\<lambda>(key, item). (key, JBool True) \<in> set ents) SERVICES
      else SERVICES)"

definition accepted_custom :: "host \<Rightarrow> (string \<times> jsval) list \<Rightarrow> (string \<times> jsval) list" where
  "accepted_custom H ents = filter (\<lambda>(k, v). typeof v = ''object'' \<and> \<not> rejected H v) ents"

text \<open>Insertion order: every key at the place of its first occurrence.\<close>

definition insertion_order :: "string list \<Rightarrow> string list" where
  "insertion_order keys = foldl (\<lambda>ks k. if k \<in> set ks then ks else ks @ [k]) [] keys"

text \<open>Index order: the keys that are array indices, each one once, in ascending order
  of their values.\<close>

definition index_order :: "string list \<Rightarrow> string list" where
  "index_order keys =
     foldl (\<lambda>ks k. if k \<in> set ks then ks else insort_key decimal_value k ks) []
       (filter is_array_index keys)"

text \<open>The keys of the entries that the resolver merges, in the order in which it
  inserts them.\<close>

definition inserted_keys :: "host \<Rightarrow> (string \<times> jsval) list \<Rightarrow> (string \<times> jsval) list \<Rightarrow> string list" where
  "inserted_keys H SERVICES ents =
     map fst (enabled_builtins SERVICES ents) @ map fst (accepted_custom H ents)"

text \<open>The pasted markup \<^verbatim>\<open><iframe src="U"></iframe>\<close>.\<close>

definition iframe_markup :: "string \<Rightarrow> string" where
  "iframe_markup U = ''<iframe src='' @ [CHR 0x22] @ U @ [CHR 0x22] @ ''></iframe>''"

section \<open>Example values\<close>

text \<open>
  A host for the examples: it prints the values the examples use as JavaScript does, and
  its \<^verbatim>\<open>CSS.supports\<close> takes for a length what every browser takes: a number of
  pixels such as \<^verbatim>\<open>300px\<close>, and zero without a unit. Its parser finds an element first
  in a string that begins with a start tag, and in nothing else.
\<close>

fun example_to_string :: "jsval \<Rightarrow> string" where
  "example_to_string JUndefined = ''undefined''"
| "example_to_string JNull = ''null''"
| "example_to_string (JBool b) = (if b then ''true'' else ''false'')"
| "example_to_string (JNum n) = (if n < 0 then CHR ''-'' # show_nat (nat (- n)) else show_nat (nat n))"
| "example_to_string JNaN = ''NaN''"
| "example_to_string (JStr s) = s"
| "example_to_string (JRegExp src r) = ''/'' @ src @ ''/''"
| "example_to_string (JFun f) = ''function () {}''"
| "example_to_string (JObj kvs) = ''[object Object]''"

fun example_css_supports :: "string \<Rightarrow> jsval \<Rightarrow> bool" where
  "example_css_supports p (JNum n) = (n = 0)"
| "example_css_supports p (JStr s) =
     (s = ''0'' \<or> (2 < length s \<and> drop (length s - 2) s = ''px''
                  \<and> list_all is_digit (take (length s - 2) s)))"
| "example_css_supports p v = False"

fun example_parses_to_element :: "jsval \<Rightarrow> bool" where
  "example_parses_to_element (JStr s) =
     (case s of
        lt # c # rest \<Rightarrow>
          lt = CHR ''<'' \<and> ((97 \<le> (of_char c :: int) \<and> (of_char c :: int) \<le> 122)
                          \<or> (65 \<le> (of_char c :: int) \<and> (of_char c :: int) \<le> 90))
      | _ \<Rightarrow> False)"
| "example_parses_to_element v = False"

definition example_host :: host where
  "example_host = \<lparr>to_string = example_to_string, css_supports = example_css_supports,
     parses_to_element = example_parses_to_element\<rparr>"

text \<open>
  Two shapes of pattern. \<open>literal_pattern lit\<close> is \<^verbatim>\<open>/lit/\<close> for a text without special
  characters: it matches the strings that contain the text and has no capture group.
  \<open>tail_pattern lit\<close> is \<^verbatim>\<open>/lit(.*)/\<close>: its one group captures what follows the first
  occurrence of the text, up to the end of the line.
\<close>

fun contains :: "string \<Rightarrow> string \<Rightarrow> bool" where
  "contains lit [] = (lit = [])"
| "contains lit (c # cs) = (prefix lit (c # cs) \<or> contains lit cs)"

definition literal_pattern :: "string \<Rightarrow> regexp" where
  "literal_pattern lit s = (if contains lit s then Some [] else None)"

fun tail_pattern :: "string \<Rightarrow> regexp" where
  "tail_pattern lit [] = (if lit = [] then Some [Some []] else None)"
| "tail_pattern lit (c # cs) =
     (if prefix lit (c # cs) then
        Some [Some (takeWhile (\<lambda>x. \<not> is_line_terminator x) (drop (length lit) (c # cs)))]
      else tail_pattern lit cs)"

text \<open>A registry of three services; the patterns of the last two overlap, and the second
  has no capture group.\<close>

definition example_services :: "(string \<times> jsval) list" where
  "example_services =
     [(''videos'', JObj [(''regex'', JRegExp ''videos.example/(.*)'' (tail_pattern ''videos.example/'')),
                         (''embedUrl'', JStr ''https://videos.example/embed/<%= remote_id %>''),
                         (''html'', JStr ''<iframe></iframe>'')]),
      (''clips'', JObj [(''regex'', JRegExp ''clips.example'' (literal_pattern ''clips.example'')),
                        (''embedUrl'', JStr ''https://clips.example/embed/<%= remote_id %>''),
                        (''html'', JStr ''<iframe></iframe>''),
                        (''height'', JNum 200), (''width'', JNum 600)]),
      (''pages'', JObj [(''regex'', JRegExp ''example/(.*)'' (tail_pattern ''example/'')),
                        (''embedUrl'', JStr ''https://pages.example/<%= remote_id %>/view''),
                        (''html'', JStr ''<iframe></iframe>'')])]"

text \<open>A registry whose one pattern, \<^verbatim>\<open>/iframe/\<close>, matches pasted markup as such.\<close>

definition frame_services :: "(string \<times> jsval) list" where
  "frame_services =
     [(''frame'', JObj [(''regex'', JRegExp ''iframe'' (literal_pattern ''iframe'')),
                        (''embedUrl'', JStr ''https://frames.example/<%= remote_id %>''),
                        (''html'', JStr ''<iframe></iframe>'')])]"

text \<open>The record of the spec's example, in a widget that has not rendered yet.\<close>

definition example_tool :: tool where
  "example_tool =
     \<lparr>the_data = \<lparr>service = JStr ''a'', source = JStr ''u1'', embed = JStr ''e1'',
                   width = JNum 10, height = JNum 20, caption = JUndefined\<rparr>,
      element = None, mounted = False, config = JObj []\<rparr>"

text \<open>A widget without content that shows its input holder in the document.\<close>

definition input_tool :: tool where
  "input_tool = \<lparr>the_data = empty_data, element = Some (InputHolder []), mounted = True,
     config = JObj []\<rparr>"

text \<open>
  A builtin catalog of one service with every optional field, and a custom definition
  for the same key that supplies the mandatory fields and a height.
\<close>

definition example_catalog :: "(string \<times> jsval) list" where
  "example_catalog =
     [(''X'', JObj [(''regex'', JRegExp ''x.example/(.*)'' (tail_pattern ''x.example/'')),
                    (''embedUrl'', JStr ''https://x.example/embed/<%= remote_id %>''),
                    (''html'', JStr ''<iframe></iframe>''),
                    (''height'', JNum 200), (''width'', JNum 600),
                    (''id'', JFun default_id)])]"

definition example_override :: jsval where
  "example_override =
     JObj [(''regex'', JRegExp ''x.example/v/(.*)'' (tail_pattern ''x.example/v/'')),
           (''embedUrl'', JStr ''https://x.example/e/<%= remote_id %>''),
           (''html'', JStr ''<iframe></iframe>''),
           (''height'', JStr ''300px'')]"

text \<open>The same definition under the key \<^verbatim>\<open>7\<close>, next to the builtin \<^verbatim>\<open>X\<close>.\<close>

definition example_indexed :: jsval where
  "example_indexed = with_services [(''7'', example_override)]"

text \<open>A custom definition that lacks the embed-URL template.\<close>

definition example_invalid :: jsval where
  "example_invalid =
     JObj [(''regex'', JRegExp ''y.example/(.*)'' (tail_pattern ''y.example/'')),
           (''html'', JStr ''<iframe></iframe>'')]"

section \<open>Properties of the data setter\<close>

lemma get_data_keeps:
  "service (the_data (get_data t)) = service (the_data t)"
  "source (the_data (get_data t)) = source (the_data t)"
  "embed (the_data (get_data t)) = embed (the_data t)"
  "width (the_data (get_data t)) = width (the_data t)"
  "height (the_data (get_data t)) = height (the_data t)"
  "element (get_data t) = element t"
  "mounted (get_data t) = mounted t"
  "config (get_data t) = config t"
  by (simp_all add: get_data_def split: option.splits)

lemma render_keeps:
  "service (the_data (snd (render H services t))) = service (the_data t)"
  "source (the_data (snd (render H services t))) = source (the_data t)"
  "embed (the_data (snd (render H services t))) = embed (the_data t)"
  "width (the_data (snd (render H services t))) = width (the_data t)"
  "height (the_data (snd (render H services t))) = height (the_data t)"
  "config (snd (render H services t)) = config t"
  by (simp_all add: render_def Let_def get_data_keeps)



text \<open>The setter in three steps: the check, the merge, and the swap of the view.\<close>

lemma set_data_reject:
  "\<not> instanceof_Object v \<Longrightarrow>
     set_data H services v t = (Some (Error ''Embed Tool data should be object''), t)"
  by (simp add: set_data_def)

lemma set_data_swap:
  assumes "instanceof_Object v"
  shows "set_data H services v t =
     (let t1 = t\<lparr>the_data :=
                \<lparr>service = js_or (get_prop v ''service'') (service (the_data t)),
                 source = js_or (get_prop v ''source'') (source (the_data t)),
                 embed = js_or (get_prop v ''embed'') (embed (the_data t)),
                 width = js_or (get_prop v ''width'') (width (the_data t)),
                 height = js_or (get_prop v ''height'') (height (the_data t)),
                 caption = JUndefined\<rparr>\<rparr>
      in if element t = None then (None, t1)
         else if \<not> mounted t then (Some TypeError, t1)
         else (fst (render H services t1),
               if fst (render H services t1) = None
               then (snd (render H services t1))\<lparr>mounted := True\<rparr>
               else snd (render H services t1)))"
  using assms
  by (cases "render H services (t\<lparr>the_data :=
                \<lparr>service = js_or (get_prop v ''service'') (service (the_data t)),
                 source = js_or (get_prop v ''source'') (source (the_data t)),
                 embed = js_or (get_prop v ''embed'') (embed (the_data t)),
                 width = js_or (get_prop v ''width'') (width (the_data t)),
                 height = js_or (get_prop v ''height'') (height (the_data t)),
                 caption = JUndefined\<rparr>\<rparr>)")
     (auto simp add: set_data_def Let_def get_data_keeps split: option.splits)

lemma set_data_object:
  assumes "instanceof_Object upd"
  shows "service (the_data (snd (set_data H services upd t))) =
           js_or (get_prop upd ''service'') (service (the_data t))"
    and "source (the_data (snd (set_data H services upd t))) =
           js_or (get_prop upd ''source'') (source (the_data t))"
    and "embed (the_data (snd (set_data H services upd t))) =
           js_or (get_prop upd ''embed'') (embed (the_data t))"
    and "width (the_data (snd (set_data H services upd t))) =
           js_or (get_prop upd ''width'') (width (the_data t))"
    and "height (the_data (snd (set_data H services upd t))) =
           js_or (get_prop upd ''height'') (height (the_data t))"
  unfolding set_data_swap [OF assms]
  by (simp_all add: Let_def get_data_keeps render_keeps)

text \<open>
  Claim C4, as the code has it. An update that is an object changes a field exactly when
  it supplies a truthy value for it: a field that is omitted, or supplied as
  \<^verbatim>\<open>undefined\<close>, \<^verbatim>\<open>null\<close>, \<^verbatim>\<open>false\<close>, \<^verbatim>\<open>0\<close>, \<^verbatim>\<open>NaN\<close> or the empty string,
  keeps its previous value, and a field supplied with any other value takes the new one.
  This holds whether or not a view is rendered again afterwards.
\<close>

theorem partial_update_merge:
  assumes "instanceof_Object upd"
  shows "service (the_data (snd (set_data H services upd t))) =
           (if truthy (get_prop upd ''service'') then get_prop upd ''service''
            else service (the_data t))
       \<and> source (the_data (snd (set_data H services upd t))) =
           (if truthy (get_prop upd ''source'') then get_prop upd ''source''
            else source (the_data t))
       \<and> embed (the_data (snd (set_data H services upd t))) =
           (if truthy (get_prop upd ''embed'') then get_prop upd ''embed''
            else embed (the_data t))
       \<and> width (the_data (snd (set_data H services upd t))) =
           (if truthy (get_prop upd ''width'') then get_prop upd ''width''
            else width (the_data t))
       \<and> height (the_data (snd (set_data H services upd t))) =
           (if truthy (get_prop upd ''height'') then get_prop upd ''height''
            else height (the_data t))"
  using set_data_object [OF assms, of H services t] by (simp add: js_or_def)

text \<open>The spec's example: updating the record \<^verbatim>\<open>{service:"a", source:"u1", embed:"e1",
  width:10, height:20}\<close> with \<^verbatim>\<open>{source:"u2"}\<close> changes the source and nothing else.\<close>

theorem partial_update_merge_witness:
  "instanceof_Object (JObj [(''source'', JStr ''u2'')])
   \<and> service (the_data (snd (set_data example_host example_services
         (JObj [(''source'', JStr ''u2'')]) example_tool))) = JStr ''a''
   \<and> source (the_data (snd (set_data example_host example_services
         (JObj [(''source'', JStr ''u2'')]) example_tool))) = JStr ''u2''
   \<and> embed (the_data (snd (set_data example_host example_services
         (JObj [(''source'', JStr ''u2'')]) example_tool))) = JStr ''e1''
   \<and> width (the_data (snd (set_data example_host example_services
         (JObj [(''source'', JStr ''u2'')]) example_tool))) = JNum 10
   \<and> height (the_data (snd (set_data example_host example_services
         (JObj [(''source'', JStr ''u2'')]) example_tool))) = JNum 20"
  using partial_update_merge [of "JObj [(''source'', JStr ''u2'')]" example_host
      example_services example_tool]
  by (simp add: example_tool_def object_prototype_def object_prototype_names_def)

text \<open>
  Claim C4 as stated fails: the width \<^verbatim>\<open>0\<close> is a value the update supplies, and it is
  neither the empty string nor \<^verbatim>\<open>undefined\<close>, yet the stored width stays \<^verbatim>\<open>10\<close>.
\<close>

theorem partial_update_zero_counterexample:
  "instanceof_Object (JObj [(''width'', JNum 0)])
   \<and> width (the_data example_tool) = JNum 10
   \<and> width (the_data (snd (set_data example_host example_services
         (JObj [(''width'', JNum 0)]) example_tool))) \<noteq> JNum 0"
  by (simp add: set_data_def get_data_def example_tool_def js_or_def Let_def)

lemma map_of_without:
  "map_of (filter (\<lambda>p. fst p \<noteq> f) kvs) k = (if k = f then None else map_of kvs k)"
  by (induction kvs) auto

lemma get_prop_without:
  "k \<noteq> f \<Longrightarrow> get_prop (JObj (filter (\<lambda>p. fst p \<noteq> f) kvs)) k = get_prop (JObj kvs) k"
  by (simp add: map_of_without)

lemma js_or_falsy: "\<not> truthy v \<Longrightarrow> js_or v old = old"
  by (simp add: js_or_def)

lemma known_names_not_inherited:
  "object_prototype ''service'' = JUndefined"
  "object_prototype ''source'' = JUndefined"
  "object_prototype ''embed'' = JUndefined"
  "object_prototype ''width'' = JUndefined"
  "object_prototype ''height'' = JUndefined"
  by (simp_all add: object_prototype_def object_prototype_names_def)

lemma js_or_omitted:
  assumes "map_of kvs f = Some v" "\<not> truthy v" "object_prototype k = JUndefined"
  shows "js_or (get_prop (JObj (filter (\<lambda>p. fst p \<noteq> f) kvs)) k) old = js_or (get_prop (JObj kvs) k) old"
proof (cases "k = f")
  case True
  with assms show ?thesis by (simp add: map_of_without js_or_def)
next
  case False
  then show ?thesis by (simp add: map_of_without)
qed

text \<open>
  Claim C10. In an update, a field whose value is falsy behaves like a field that is
  left out: the call does the same as with the field removed from the update, and the
  stored value of that field is the previous one. The number \<^verbatim>\<open>0\<close>, \<^verbatim>\<open>false\<close>,
  \<^verbatim>\<open>null\<close> and the empty string are falsy. \<^verbatim>\<open>null\<close> as the whole update is turned
  down as a non-object and leaves the widget as it was.
\<close>

theorem falsy_field_like_omitted:
  assumes "map_of kvs f = Some v" and "\<not> truthy v"
  shows "set_data H services (JObj kvs) t =
           set_data H services (JObj (filter (\<lambda>p. fst p \<noteq> f) kvs)) t
       \<and> (f = ''service'' \<longrightarrow>
            service (the_data (snd (set_data H services (JObj kvs) t))) = service (the_data t))
       \<and> (f = ''source'' \<longrightarrow>
            source (the_data (snd (set_data H services (JObj kvs) t))) = source (the_data t))
       \<and> (f = ''embed'' \<longrightarrow>
            embed (the_data (snd (set_data H services (JObj kvs) t))) = embed (the_data t))
       \<and> (f = ''width'' \<longrightarrow>
            width (the_data (snd (set_data H services (JObj kvs) t))) = width (the_data t))
       \<and> (f = ''height'' \<longrightarrow>
            height (the_data (snd (set_data H services (JObj kvs) t))) = height (the_data t))
       \<and> \<not> truthy (JNum 0) \<and> \<not> truthy (JBool False) \<and> \<not> truthy JNull \<and> \<not> truthy (JStr [])
       \<and> set_data H services JNull t = (Some (Error ''Embed Tool data should be object''), t)"
proof -
  have same: "set_data H services (JObj kvs) t =
           set_data H services (JObj (filter (\<lambda>p. fst p \<noteq> f) kvs)) t"
    unfolding set_data_def Let_def
    by (simp only: js_or_omitted [OF assms known_names_not_inherited(1)]
        js_or_omitted [OF assms known_names_not_inherited(2)]
        js_or_omitted [OF assms known_names_not_inherited(3)]
        js_or_omitted [OF assms known_names_not_inherited(4)]
        js_or_omitted [OF assms known_names_not_inherited(5)] instanceof_Object.simps)
  have obj: "instanceof_Object (JObj kvs)" by simp
  have fields:
    "f = ''service'' \<longrightarrow>
       service (the_data (snd (set_data H services (JObj kvs) t))) = service (the_data t)"
    "f = ''source'' \<longrightarrow>
       source (the_data (snd (set_data H services (JObj kvs) t))) = source (the_data t)"
    "f = ''embed'' \<longrightarrow>
       embed (the_data (snd (set_data H services (JObj kvs) t))) = embed (the_data t)"
    "f = ''width'' \<longrightarrow>
       width (the_data (snd (set_data H services (JObj kvs) t))) = width (the_data t)"
    "f = ''height'' \<longrightarrow>
       height (the_data (snd (set_data H services (JObj kvs) t))) = height (the_data t)"
    using set_data_object [OF obj, of H services t] assms by (auto simp add: js_or_falsy)
  have literals: "\<not> truthy (JNum 0) \<and> \<not> truthy (JBool False) \<and> \<not> truthy JNull \<and> \<not> truthy (JStr [])"
    by simp
  have null: "set_data H services JNull t = (Some (Error ''Embed Tool data should be object''), t)"
    by (simp add: set_data_reject)
  from same fields literals null show ?thesis by blast
qed

text \<open>An update with a \<^verbatim>\<open>null\<close> service and the width \<^verbatim>\<open>0\<close> does what the update
  without the width does, and the stored width stays \<^verbatim>\<open>10\<close>.\<close>

theorem falsy_field_like_omitted_witness:
  "map_of [(''service'', JNull), (''width'', JNum 0)] ''width'' = Some (JNum 0) \<and> \<not> truthy (JNum 0)
   \<and> set_data example_host example_services (JObj [(''service'', JNull), (''width'', JNum 0)]) example_tool =
       set_data example_host example_services (JObj [(''service'', JNull)]) example_tool
   \<and> width (the_data (snd (set_data example_host example_services
         (JObj [(''service'', JNull), (''width'', JNum 0)]) example_tool))) = JNum 10"
  using falsy_field_like_omitted [of "[(''service'', JNull), (''width'', JNum 0)]" "''width''" "JNum 0"
      example_host example_services example_tool]
  by (simp add: example_tool_def set_data_def get_data_def js_or_def Let_def)






text \<open>That widget exists: it is a widget constructed from \<^verbatim>\<open>{}\<close>, rendered once and put
  into the document.\<close>

lemma input_tool_reachable: "reachable input_tool"
proof -
  have c: "construct example_host example_services (JObj []) (JObj []) =
             Inr \<lparr>the_data = empty_data, element = None, mounted = False, config = JObj []\<rparr>"
    by (simp add: construct_def set_data_def get_data_def js_or_def Let_def empty_data_def
        object_prototype_def object_prototype_names_def)
  have r: "render example_host example_services
             \<lparr>the_data = empty_data, element = None, mounted = False, config = JObj []\<rparr>
             = (None, \<lparr>the_data = empty_data, element = Some (InputHolder []), mounted = False,
                       config = JObj []\<rparr>)"
    by (simp add: render_def get_data_def empty_data_def Let_def)
  have p: "\<lparr>the_data = empty_data, element = Some (InputHolder []), mounted = False,
            config = JObj []\<rparr>\<lparr>mounted := True\<rparr> = input_tool"
    by (simp add: input_tool_def)
  from reachable.placed [OF reachable.rendered [OF reachable.constructed [OF c] r], of True]
  show ?thesis unfolding p .
qed

section \<open>Saved records\<close>

text \<open>Every field of the record of a widget is \<^verbatim>\<open>undefined\<close> or truthy: the setter is
  the only writer, and it never stores a falsy value over one of these.\<close>

lemma js_or_settled:
  "old = JUndefined \<or> truthy old \<Longrightarrow> js_or v old = JUndefined \<or> truthy (js_or v old)"
  by (auto simp add: js_or_def)

lemma set_data_settled:
  assumes "f (the_data t) = JUndefined \<or> truthy (f (the_data t))"
    and "f = service \<or> f = source \<or> f = embed \<or> f = width \<or> f = height"
  shows "f (the_data (snd (set_data H services v t))) = JUndefined
         \<or> truthy (f (the_data (snd (set_data H services v t))))"
proof (cases "instanceof_Object v")
  case False
  with assms(1) show ?thesis by (simp add: set_data_reject)
next
  case True
  from assms(2) show ?thesis
    using set_data_object [OF True, of H services t] js_or_settled [OF assms(1)]
    by (elim disjE) simp_all
qed

lemma performServices_cases:
  "snd (performServices H services ev t) = t
   \<or> (\<exists>upd. performServices H services ev t = set_data H services upd t)"
  unfolding performServices_def Let_def
  by (auto split: jsval.splits option.splits sum.splits simp del: get_prop.simps)

lemma construct_fields:
  assumes "construct H services d cfg = Inr t"
  shows "the_data t = the_data (snd (set_data H services d \<lparr>the_data = empty_data, element = None, mounted = False, config = JUndefined\<rparr>))"
  using assms by (auto simp add: construct_def split: prod.splits option.splits)

lemma reachable_settled:
  assumes "reachable t" and "f = service \<or> f = source \<or> f = embed \<or> f = width \<or> f = height"
  shows "f (the_data t) = JUndefined \<or> truthy (f (the_data t))"
  using assms(1)
proof (induction rule: reachable.induct)
  case (constructed H services d cfg t)
  have "f empty_data = JUndefined" using assms(2) by (auto simp add: empty_data_def)
  then have "f (the_data \<lparr>the_data = empty_data, element = None, mounted = False, config = JUndefined\<rparr>) = JUndefined
      \<or> truthy (f (the_data \<lparr>the_data = empty_data, element = None, mounted = False, config = JUndefined\<rparr>))" by simp
  from set_data_settled [OF this assms(2), of H services d] construct_fields [OF constructed]
  show ?case by simp
next
  case (updated t H services d e t')
  from set_data_settled [OF updated.IH assms(2), of H services d] updated.hyps(2)
  show ?case by simp
next
  case (rendered t H services e t')
  have "t' = snd (render H services t)" using rendered.hyps(2) by simp
  with rendered.IH assms(2) show ?case by (auto simp add: render_keeps)
next
  case (pasted t H services ev e t')
  from performServices_cases [of H services ev t] show ?case
  proof
    assume "snd (performServices H services ev t) = t"
    with pasted show ?thesis by simp
  next
    assume "\<exists>upd. performServices H services ev t = set_data H services upd t"
    then obtain upd where "performServices H services ev t = set_data H services upd t" ..
    with set_data_settled [OF pasted.IH assms(2), of H services upd] pasted.hyps(2)
    show ?thesis by simp
  qed
next
  case (saved t)
  with assms(2) show ?case by (auto simp add: save_def get_data_keeps)
next
  case (typed t s s')
  then show ?case by simp
next
  case (placed t b)
  then show ?case by simp
qed

lemma construct_saved:
  "construct H services (as_object d) cfg =
     Inr \<lparr>the_data = \<lparr>service = js_or (service d) JUndefined, source = js_or (source d) JUndefined,
                      embed = js_or (embed d) JUndefined, width = js_or (width d) JUndefined,
                      height = js_or (height d) JUndefined, caption = JUndefined\<rparr>,
          element = None, mounted = False, config = cfg\<rparr>"
  by (simp add: construct_def set_data_def get_data_def as_object_def Let_def empty_data_def)

lemma js_or_undefined: "v = JUndefined \<or> truthy v \<Longrightarrow> js_or v JUndefined = v"
  by (auto simp add: js_or_def)

text \<open>
  Claim C5. A record saved by a widget that exists, handed to the constructor, gives a
  widget (the constructor does not raise) whose \<^verbatim>\<open>save\<close>, called at once, returns the
  same service, source, embed, width and height.
\<close>

theorem save_round_trip:
  assumes "reachable t"
  shows "\<exists>t'. construct H services (as_object (the_data (save t))) cfg = Inr t'
           \<and> service (the_data (save t')) = service (the_data (save t))
           \<and> source (the_data (save t')) = source (the_data (save t))
           \<and> embed (the_data (save t')) = embed (the_data (save t))
           \<and> width (the_data (save t')) = width (the_data (save t))
           \<and> height (the_data (save t')) = height (the_data (save t))"
proof -
  have r: "reachable (save t)" using assms by (rule reachable.saved)
  show ?thesis
    unfolding construct_saved
    using reachable_settled [OF r, of service] reachable_settled [OF r, of source]
      reachable_settled [OF r, of embed] reachable_settled [OF r, of width]
      reachable_settled [OF r, of height]
    by (simp add: save_def get_data_def js_or_undefined)
qed

lemma example_tool_reachable: "reachable example_tool"
proof -
  have "construct example_host example_services
          (JObj [(''service'', JStr ''a''), (''source'', JStr ''u1''), (''embed'', JStr ''e1''),
                 (''width'', JNum 10), (''height'', JNum 20)]) (JObj []) = Inr example_tool"
    by (simp add: construct_def set_data_def get_data_def js_or_def Let_def empty_data_def
        example_tool_def)
  then show ?thesis by (rule reachable.constructed)
qed

text \<open>The example widget is one that exists, and its record comes back as it was.\<close>

theorem save_round_trip_witness:
  "reachable example_tool
   \<and> (\<exists>t'. construct example_host example_services (as_object (the_data (save example_tool))) (JObj [])
              = Inr t'
           \<and> service (the_data (save t')) = JStr ''a''
           \<and> source (the_data (save t')) = JStr ''u1''
           \<and> embed (the_data (save t')) = JStr ''e1''
           \<and> width (the_data (save t')) = JNum 10
           \<and> height (the_data (save t')) = JNum 20)"
  using example_tool_reachable
    save_round_trip [OF example_tool_reachable, of example_host example_services "JObj []"]
  by (simp add: save_def get_data_def example_tool_def)

section \<open>Pasted iframe markup\<close>

lemma closes_mismatch: "d \<noteq> q \<Longrightarrow> closes q (d # s) = False"
  by (cases s) simp_all

lemma src_value_found:
  assumes "U \<noteq> []" and "q \<notin> set U" and "\<forall>c \<in> set U. \<not> is_line_terminator c"
    and "closes q (q # rest)"
  shows "src_value q taken (U @ q # rest) = Some (taken @ U)"
  using assms
proof (induction U arbitrary: taken)
  case Nil
  then show ?case by simp
next
  case (Cons c U)
  show ?case
  proof (cases U)
    case Nil
    with Cons.prems show ?thesis by simp
  next
    case (Cons d U')
    with Cons.prems have "d \<noteq> q" by auto
    then have "\<not> closes q (U @ q # rest)" using Cons by (simp add: closes_mismatch)
    moreover have "src_value q (taken @ [c]) (U @ q # rest) = Some ((taken @ [c]) @ U)"
      using Cons.IH [of "taken @ [c]"] Cons.prems Cons by simp
    ultimately show ?thesis using Cons.prems by simp
  qed
qed

lemma closing_tag: "closes (CHR 0x22) ([CHR 0x22] @ ''></iframe>'')"
  by (simp add: is_line_terminator_def)

lemma iframe_src_markup:
  assumes "U \<noteq> []" and "CHR 0x22 \<notin> set U" and "\<forall>c \<in> set U. \<not> is_line_terminator c"
  shows "iframe_src (iframe_markup U) = Some U"
proof -
  have "src_value (CHR 0x22) [] (U @ CHR 0x22 # ''></iframe>'') = Some ([] @ U)"
    using closing_tag by (intro src_value_found [OF assms]) simp
  then show ?thesis
    by (simp add: iframe_markup_def src_here_def is_white_space_def)
qed

text \<open>A text without \<^verbatim>\<open><\<close>, as a URL is, is not markup: the matcher takes it as it is.\<close>

lemma iframe_src_no_tag: "CHR ''<'' \<notin> set s \<Longrightarrow> iframe_src s = None"
  by (induction s) auto

text \<open>
  Claim C6, as the code has it. Let \<open>U\<close> be a text that is not empty, holds no double
  quote and no line terminator, and is not itself markup the matcher would unwrap. Then
  the candidate URL of \<^verbatim>\<open><iframe src="U"></iframe>\<close> is \<open>U\<close>, and against every
  registry the markup gives the match result of the bare \<open>U\<close>.
\<close>

theorem iframe_unwraps_to_src:
  assumes "U \<noteq> []" and "CHR 0x22 \<notin> set U" and "\<forall>c \<in> set U. \<not> is_line_terminator c"
    and "iframe_src U = None"
  shows "candidate_url (iframe_markup U) = U
       \<and> matchService services (iframe_markup U) = matchService services U"
  using iframe_src_markup [OF assms(1,2,3)] assms(1,4)
  by (simp add: matchService_def candidate_url_def)

text \<open>A URL in markup, against the example registry.\<close>

theorem iframe_unwraps_to_src_witness:
  "''https://clips.example/7'' \<noteq> [] \<and> CHR 0x22 \<notin> set ''https://clips.example/7''
   \<and> list_all (\<lambda>c. \<not> is_line_terminator c) ''https://clips.example/7''
   \<and> iframe_src ''https://clips.example/7'' = None
   \<and> candidate_url (iframe_markup ''https://clips.example/7'') = ''https://clips.example/7''
   \<and> matchService example_services (iframe_markup ''https://clips.example/7'')
       = matchService example_services ''https://clips.example/7''"
proof -
  have a: "''https://clips.example/7'' \<noteq> []" by simp
  have b: "CHR 0x22 \<notin> set ''https://clips.example/7''" by simp
  have c: "\<forall>c \<in> set ''https://clips.example/7''. \<not> is_line_terminator c"
    by (simp add: is_line_terminator_def)
  have d: "iframe_src ''https://clips.example/7'' = None" by simp
  have c': "list_all (\<lambda>c. \<not> is_line_terminator c) ''https://clips.example/7''"
    by (simp add: is_line_terminator_def)
  from iframe_unwraps_to_src [OF a b c d, of example_services] a b c' d show ?thesis by blast
qed

text \<open>
  Claim C6 as stated fails for the quoted value that is empty: the pattern wants one
  character at least between the quotes, so \<^verbatim>\<open><iframe src=""></iframe>\<close> is not
  unwrapped and the whole markup is the candidate, which a service may match, while the
  bare empty input matches nothing.
\<close>

theorem iframe_empty_src_counterexample:
  "matchService frame_services (iframe_markup []) = Inr (Some (''frame'', iframe_markup []))
   \<and> matchService frame_services [] = Inr None
   \<and> matchService frame_services (iframe_markup []) \<noteq> matchService frame_services []"
  by (simp add: matchService_def candidate_url_def iframe_markup_def frame_services_def
      src_here_def is_white_space_def is_line_terminator_def literal_pattern_def
      hasOwnProperty_def)

section \<open>Substituting an empty or missing resource id\<close>





lemma has_regex_not_nullish: "get_prop d ''regex'' = JRegExp src r \<Longrightarrow> \<not> nullish d"
  by (cases d) auto


text \<open>A paste raises before the setter is reached, and leaves the widget as it was, when
  the key is not registered and when the pattern does not match the URL.\<close>

lemma performServices_unregistered:
  "nullish (get_prop (JObj services) key)
     \<Longrightarrow> performServices H services (key, url) t = (Some TypeError, t)"
  by (simp add: performServices_def Let_def del: get_prop.simps)

lemma performServices_unmatched:
  assumes "get_prop (get_prop (JObj services) key) ''regex'' = JRegExp src regex"
    and "regex url = None"
  shows "performServices H services (key, url) t = (Some TypeError, t)"
  using assms has_regex_not_nullish [OF assms(1)]
  by (simp add: performServices_def Let_def del: get_prop.simps)





section \<open>Properties of registry resolution\<close>

lemma typeof_object_cases:
  "typeof v = ''object'' \<Longrightarrow> v \<noteq> JNull \<Longrightarrow> \<not> nullish v"
  by (cases v) simp_all

lemma checkServiceConfig_total:
  "\<not> nullish v \<Longrightarrow> \<exists>isValid. checkServiceConfig H v = Inr isValid"
  by (simp add: checkServiceConfig_def Let_def)

lemma filter_checked_objects:
  assumes "\<forall>(k, v) \<in> set xs. typeof v = ''object'' \<and> v \<noteq> JNull"
  shows "filter_checked H xs = Inr (filter (\<lambda>(k, v). \<not> rejected H v) xs)"
  using assms
proof (induction xs)
  case Nil
  then show ?case by simp
next
  case (Cons x xs)
  obtain k v where x: "x = (k, v)" by (cases x)
  with Cons.prems have v: "typeof v = ''object''" "v \<noteq> JNull" by auto
  then obtain isValid where c: "checkServiceConfig H v = Inr isValid"
    using checkServiceConfig_total [OF typeof_object_cases] by blast
  from Cons have rest: "filter_checked H xs = Inr (filter (\<lambda>(k, v). \<not> rejected H v) xs)" by simp
  from v c have "rejected H v = (\<not> truthy isValid)" by (simp add: rejected_def)
  with x c rest show ?case by simp
qed

lemma patterns_from_total:
  "\<forall>(k, item) \<in> set es. \<not> nullish item \<Longrightarrow> \<exists>pats. patterns_from acc es = Inr pats"
  by (induction es arbitrary: acc) auto

lemma prepare_with_services:
  assumes "\<forall>(k, v) \<in> set ents. v \<noteq> JNull"
  shows "prepare H SERVICES (with_services ents) =
     (case patterns_from []
        ((if map fst (filter (\<lambda>(key, v). typeof v = ''boolean'' \<and> is_true v) ents) \<noteq> []
          then filter (\<lambda>(key, v). key \<in> set (map fst (filter (\<lambda>(key, v). typeof v = ''boolean'' \<and> is_true v) ents))) SERVICES
          else SERVICES)
         @ map (\<lambda>(key, svc). (key, known_fields svc))
             (filter (\<lambda>(k, v). \<not> rejected H v) (filter (\<lambda>(key, v). typeof v = ''object'') ents))) of
        Inl e \<Rightarrow> Inl e
      | Inr patterns \<Rightarrow>
          Inr (foldl merge_entry []
                ((if map fst (filter (\<lambda>(key, v). typeof v = ''boolean'' \<and> is_true v) ents) \<noteq> []
                  then filter (\<lambda>(key, v). key \<in> set (map fst (filter (\<lambda>(key, v). typeof v = ''boolean'' \<and> is_true v) ents))) SERVICES
                  else SERVICES)
                 @ map (\<lambda>(key, svc). (key, known_fields svc))
                     (filter (\<lambda>(k, v). \<not> rejected H v) (filter (\<lambda>(key, v). typeof v = ''object'') ents))),
               patterns))"
proof -
  have "\<forall>(k, v) \<in> set (filter (\<lambda>(key, v). typeof v = ''object'') ents). typeof v = ''object'' \<and> v \<noteq> JNull"
    using assms by auto
  from filter_checked_objects [OF this, of H]
  show ?thesis
    by (simp add: prepare_def with_services_def object_entries_def Let_def del: filter_filter)
qed

lemma rejected_is_object: "rejected H v \<Longrightarrow> typeof v = ''object''"
  by (simp add: rejected_def)

lemma enabled_without_rejected:
  "filter (\<lambda>(key, v). typeof v = ''boolean'' \<and> is_true v) (filter (\<lambda>(k, v). \<not> rejected H v) ents)
     = filter (\<lambda>(key, v). typeof v = ''boolean'' \<and> is_true v) ents"
  by (induction ents) (auto dest: rejected_is_object)

lemma objects_without_rejected:
  "filter (\<lambda>(k, v). \<not> rejected H v) (filter (\<lambda>(key, v). typeof v = ''object'')
       (filter (\<lambda>(k, v). \<not> rejected H v) ents))
     = filter (\<lambda>(k, v). \<not> rejected H v) (filter (\<lambda>(key, v). typeof v = ''object'') ents)"
  by (induction ents) auto

text \<open>The registry has no key but those of its entries.\<close>

lemma put_index_set: "set (put_index k v kvs) = insert (k, v) (set kvs)"
  by (induction kvs) (auto split: if_splits)

lemma put_index_keys: "fst ` set (put_index k v kvs) = insert k (fst ` set kvs)"
  by (simp add: put_index_set)

lemma set_prop_keys: "fst ` set (set_prop k v kvs) \<subseteq> insert k (fst ` set kvs)"
  by (auto simp add: set_prop_def put_index_keys split: if_splits)

lemma merge_entry_keys: "fst ` set (merge_entry result e) \<subseteq> insert (fst e) (fst ` set result)"
  using set_prop_keys by (simp add: merge_entry_def Let_def)

lemma foldl_merge_entry_keys:
  "fst ` set (foldl merge_entry acc es) \<subseteq> fst ` set acc \<union> fst ` set es"
proof (induction es arbitrary: acc)
  case Nil
  then show ?case by simp
next
  case (Cons e es)
  from Cons [of "merge_entry acc e"] merge_entry_keys [of acc e] show ?case by auto
qed

lemma rejected_key_absent:
  assumes "(k, v) \<in> set ents" and "rejected H v" and "distinct (map fst ents)"
  shows "k \<notin> fst ` set (map (\<lambda>(key, svc). (key, known_fields svc))
           (filter (\<lambda>(k, v). \<not> rejected H v) (filter (\<lambda>(key, v). typeof v = ''object'') ents)))"
proof
  assume "k \<in> fst ` set (map (\<lambda>(key, svc). (key, known_fields svc))
           (filter (\<lambda>(k, v). \<not> rejected H v) (filter (\<lambda>(key, v). typeof v = ''object'') ents)))"
  then obtain v' where v': "(k, v') \<in> set ents" "\<not> rejected H v'" by auto
  from assms(3) v'(1) assms(1) have "v' = v" by (rule eq_key_imp_eq_value)
  with assms(2) v'(2) show False by simp
qed

text \<open>
  Away from \<^verbatim>\<open>null\<close> the resolver drops what fails the check. The configuration is
  \<^verbatim>\<open>{services: {...}}\<close> with no \<^verbatim>\<open>null\<close> among the values, and no item of the builtin
  catalog is \<^verbatim>\<open>undefined\<close> or \<^verbatim>\<open>null\<close>. Then resolution raises nothing; it gives what
  it gives for the configuration without the custom definitions that fail the check, so
  that none of them reaches the registry or the patterns; and the key of such a
  definition, when it is no builtin key, is no key of the registry.
\<close>

lemma invalid_custom_services_dropped:
  assumes "\<forall>(k, v) \<in> set ents. v \<noteq> JNull"
    and "\<forall>(k, item) \<in> set SERVICES. \<not> nullish item"
  shows "(\<exists>reg pats. prepare H SERVICES (with_services ents) = Inr (reg, pats))
       \<and> prepare H SERVICES (with_services ents) =
           prepare H SERVICES (with_services (filter (\<lambda>(k, v). \<not> rejected H v) ents))
       \<and> (\<forall>k v reg pats.
             (k, v) \<in> set ents \<and> rejected H v \<and> distinct (map fst ents)
             \<and> k \<notin> fst ` set SERVICES
             \<and> prepare H SERVICES (with_services ents) = Inr (reg, pats)
             \<longrightarrow> k \<notin> fst ` set reg)"
proof (intro conjI allI impI)
  let ?enabled = "if map fst (filter (\<lambda>(key, v). typeof v = ''boolean'' \<and> is_true v) ents) \<noteq> []
          then filter (\<lambda>(key, v). key \<in> set (map fst (filter (\<lambda>(key, v). typeof v = ''boolean'' \<and> is_true v) ents))) SERVICES
          else SERVICES"
  let ?user = "map (\<lambda>(key, svc). (key, known_fields svc))
             (filter (\<lambda>(k, v). \<not> rejected H v) (filter (\<lambda>(key, v). typeof v = ''object'') ents))"
  have sub: "set ?enabled \<subseteq> set SERVICES" by auto
  with assms(2) have builtin: "\<forall>(k, item) \<in> set ?enabled. \<not> nullish item" by blast
  have user: "\<forall>(k, item) \<in> set ?user. \<not> nullish item" by (auto simp add: known_fields_def)
  from builtin user have "\<forall>(k, item) \<in> set (?enabled @ ?user). \<not> nullish item"
    unfolding set_append ball_Un by (rule conjI)
  from patterns_from_total [OF this, of "[]"]
  obtain pats where pats: "patterns_from [] (?enabled @ ?user) = Inr pats" by blast
  have eq: "prepare H SERVICES (with_services ents) = Inr (foldl merge_entry [] (?enabled @ ?user), pats)"
    unfolding prepare_with_services [OF assms(1)] pats by simp
  then show "\<exists>reg pats. prepare H SERVICES (with_services ents) = Inr (reg, pats)" by blast
  have kept: "\<forall>(k, v) \<in> set (filter (\<lambda>(k, v). \<not> rejected H v) ents). v \<noteq> JNull"
    using assms(1) by auto
  show "prepare H SERVICES (with_services ents) =
           prepare H SERVICES (with_services (filter (\<lambda>(k, v). \<not> rejected H v) ents))"
    unfolding prepare_with_services [OF assms(1)] prepare_with_services [OF kept]
      enabled_without_rejected objects_without_rejected ..
  fix k v reg pats'
  assume a: "(k, v) \<in> set ents \<and> rejected H v \<and> distinct (map fst ents)
             \<and> k \<notin> fst ` set SERVICES
             \<and> prepare H SERVICES (with_services ents) = Inr (reg, pats')"
  with eq have reg: "reg = foldl merge_entry [] (?enabled @ ?user)" by simp
  from a have u: "k \<notin> fst ` set ?user" by (intro rejected_key_absent) auto
  from a have "k \<notin> fst ` set SERVICES" by simp
  with sub have e: "k \<notin> fst ` set ?enabled" by blast
  from u e have "k \<notin> fst ` set (?enabled @ ?user)"
    unfolding set_append image_Un by blast
  moreover have "fst ` set (foldl merge_entry [] (?enabled @ ?user))
      \<subseteq> fst ` set (?enabled @ ?user)"
    using foldl_merge_entry_keys [of "[]" "?enabled @ ?user"] by simp
  ultimately show "k \<notin> fst ` set reg"
    unfolding reg by blast
qed

text \<open>A definition without the embed-URL template fails the check, the override of the
  examples passes it.\<close>

lemma example_invalid_rejected: "rejected example_host example_invalid"
  by (simp add: rejected_def example_invalid_def checkServiceConfig_def Let_def js_and_def
      object_prototype_def object_prototype_names_def)

lemma example_override_accepted: "\<not> rejected example_host example_override"
  by (simp add: rejected_def example_override_def checkServiceConfig_def Let_def js_and_def
      example_host_def object_prototype_def object_prototype_names_def is_digit_def)

text \<open>With the invalid \<^verbatim>\<open>Y\<close> next to the valid \<^verbatim>\<open>X\<close>, resolution returns what it
  returns for \<^verbatim>\<open>X\<close> alone, and \<^verbatim>\<open>Y\<close> is no key of the registry.\<close>

lemma invalid_custom_services_dropped_example:
  "list_all (\<lambda>(k, v). v \<noteq> JNull) [(''Y'', example_invalid), (''X'', example_override)]
   \<and> list_all (\<lambda>(k, item). \<not> nullish item) example_catalog
   \<and> rejected example_host example_invalid
   \<and> (\<exists>reg pats. prepare example_host example_catalog
          (with_services [(''Y'', example_invalid), (''X'', example_override)]) = Inr (reg, pats)
          \<and> ''Y'' \<notin> fst ` set reg)
   \<and> prepare example_host example_catalog
        (with_services [(''Y'', example_invalid), (''X'', example_override)])
       = prepare example_host example_catalog (with_services [(''X'', example_override)])"
proof -
  have a: "\<forall>(k, v) \<in> set [(''Y'', example_invalid), (''X'', example_override)]. v \<noteq> JNull"
    by (simp add: example_invalid_def example_override_def)
  have b: "\<forall>(k, item) \<in> set example_catalog. \<not> nullish item"
    by (simp add: example_catalog_def)
  have f: "filter (\<lambda>(k, v). \<not> rejected example_host v)
             [(''Y'', example_invalid), (''X'', example_override)] = [(''X'', example_override)]"
    by (simp add: example_invalid_rejected example_override_accepted)
  have d: "distinct (map fst [(''Y'', example_invalid), (''X'', example_override)])" by simp
  have y: "''Y'' \<notin> fst ` set example_catalog" by (simp add: example_catalog_def)
  note T = invalid_custom_services_dropped [OF a b, of example_host]
  from T obtain reg pats where p: "prepare example_host example_catalog
          (with_services [(''Y'', example_invalid), (''X'', example_override)]) = Inr (reg, pats)"
    by blast
  from T have "(''Y'', example_invalid) \<in> set [(''Y'', example_invalid), (''X'', example_override)]
      \<and> rejected example_host example_invalid
      \<and> distinct (map fst [(''Y'', example_invalid), (''X'', example_override)])
      \<and> ''Y'' \<notin> fst ` set example_catalog
      \<and> prepare example_host example_catalog
          (with_services [(''Y'', example_invalid), (''X'', example_override)]) = Inr (reg, pats)
      \<longrightarrow> ''Y'' \<notin> fst ` set reg" by blast
  with example_invalid_rejected d y p have absent: "''Y'' \<notin> fst ` set reg" by simp
  from T have "prepare example_host example_catalog
        (with_services [(''Y'', example_invalid), (''X'', example_override)])
       = prepare example_host example_catalog (with_services (filter (\<lambda>(k, v). \<not> rejected example_host v)
             [(''Y'', example_invalid), (''X'', example_override)]))" by blast
  then have same: "prepare example_host example_catalog
        (with_services [(''Y'', example_invalid), (''X'', example_override)])
       = prepare example_host example_catalog (with_services [(''X'', example_override)])"
    unfolding f .
  have a': "list_all (\<lambda>(k, v). v \<noteq> JNull) [(''Y'', example_invalid), (''X'', example_override)]"
    by (simp add: example_invalid_def example_override_def)
  have b': "list_all (\<lambda>(k, item). \<not> nullish item) example_catalog"
    by (simp add: example_catalog_def)
  from a' b' example_invalid_rejected p absent same show ?thesis by blast
qed

text \<open>
  What fails the check: a custom definition that is an object is turned down exactly
  when its pattern is no regular expression, its embed-URL template or its frame
  template is missing, no string or the empty string, its \<^verbatim>\<open>id\<close> is given and is no
  function, or its height or width is given and is no length the browser accepts.
\<close>

lemma truthy_js_and: "truthy (js_and a b) = (truthy a \<and> truthy b)"
  by (simp add: js_and_def)

lemma truthy_if_bool: "truthy (if c then JBool a else JBool True) = (c \<longrightarrow> a)"
  by simp

lemma is_undefined_iff: "is_undefined v = (v = JUndefined)"
  by (cases v) simp_all

lemma truthy_regexp: "(truthy v \<and> instanceof_RegExp v) = instanceof_RegExp v"
  by (cases v) simp_all

lemma truthy_string:
  "(truthy v \<and> typeof v = ''string'') = (typeof v = ''string'' \<and> v \<noteq> JStr [])"
  by (cases v) auto

lemma rejected_kinds:
  assumes "typeof v = ''object''" and "v \<noteq> JNull"
  shows "rejected H v =
     (\<not> instanceof_RegExp (get_prop v ''regex'')
      \<or> typeof (get_prop v ''embedUrl'') \<noteq> ''string'' \<or> get_prop v ''embedUrl'' = JStr []
      \<or> typeof (get_prop v ''html'') \<noteq> ''string'' \<or> get_prop v ''html'' = JStr []
      \<or> (get_prop v ''id'' \<noteq> JUndefined \<and> \<not> instanceof_Function (get_prop v ''id''))
      \<or> (get_prop v ''height'' \<noteq> JUndefined \<and> \<not> css_supports H ''height'' (get_prop v ''height''))
      \<or> (get_prop v ''width'' \<noteq> JUndefined \<and> \<not> css_supports H ''width'' (get_prop v ''width'')))"
proof -
  from assms have n: "\<not> nullish v" by (rule typeof_object_cases)
  have "rejected H v =
     (\<not> ((truthy (get_prop v ''regex'') \<and> instanceof_RegExp (get_prop v ''regex''))
         \<and> (truthy (get_prop v ''embedUrl'') \<and> typeof (get_prop v ''embedUrl'') = ''string'')
         \<and> (truthy (get_prop v ''html'') \<and> typeof (get_prop v ''html'') = ''string'')
         \<and> (get_prop v ''id'' \<noteq> JUndefined \<longrightarrow> instanceof_Function (get_prop v ''id''))
         \<and> (get_prop v ''height'' \<noteq> JUndefined \<longrightarrow> css_supports H ''height'' (get_prop v ''height''))
         \<and> (get_prop v ''width'' \<noteq> JUndefined \<longrightarrow> css_supports H ''width'' (get_prop v ''width''))))"
    using assms(1) n
    by (simp add: rejected_def checkServiceConfig_def Let_def truthy_js_and truthy_if_bool
        is_undefined_iff del: get_prop.simps)
  then show ?thesis unfolding truthy_regexp truthy_string by blast
qed

text \<open>A definition that is \<^verbatim>\<open>null\<close> ends the resolution, wherever it stands.\<close>

lemma filter_checked_null:
  "(k, JNull) \<in> set xs \<Longrightarrow> filter_checked H xs = Inl TypeError"
proof (induction xs)
  case Nil
  then show ?case by simp
next
  case (Cons x xs)
  obtain k' v where x: "x = (k', v)" by (cases x)
  show ?case
  proof (cases "nullish v")
    case True
    with x show ?thesis by (simp add: checkServiceConfig_def)
  next
    case False
    with Cons.prems x have "(k, JNull) \<in> set xs" by auto
    with Cons.IH have "filter_checked H xs = Inl TypeError" by simp
    with x False show ?thesis by (simp add: checkServiceConfig_def Let_def)
  qed
qed

text \<open>
  Claim C7 fails on the code. A custom service that is \<^verbatim>\<open>null\<close> fails validation and
  should be dropped like every other one. Its \<^verbatim>\<open>typeof\<close> is \<^verbatim>\<open>object\<close>, so the resolver
  hands it to the check, which destructures its argument and raises: whatever else the
  configuration and the builtin catalog hold, the resolution ends with a \<^verbatim>\<open>TypeError\<close>
  and installs no registry.
\<close>

theorem null_custom_service_raises:
  assumes "(k, JNull) \<in> set ents"
  shows "typeof JNull = ''object''
       \<and> checkServiceConfig H JNull = Inl TypeError
       \<and> prepare H SERVICES (with_services ents) = Inl TypeError"
proof -
  from assms have "(k, JNull) \<in> set (filter (\<lambda>(key, v). typeof v = ''object'') ents)" by simp
  then have "filter_checked H (filter (\<lambda>(key, v). typeof v = ''object'') ents) = Inl TypeError"
    by (rule filter_checked_null)
  then show ?thesis
    by (simp add: prepare_def with_services_def object_entries_def checkServiceConfig_def Let_def
        del: filter_filter)
qed

text \<open>The valid override of \<^verbatim>\<open>X\<close> with a \<^verbatim>\<open>null\<close> next to it: nothing is resolved.\<close>

theorem null_custom_service_raises_witness:
  "(''Y'', JNull) \<in> set [(''X'', example_override), (''Y'', JNull)]
   \<and> prepare example_host example_catalog (with_services [(''X'', example_override), (''Y'', JNull)])
       = Inl TypeError"
  using null_custom_service_raises [of "''Y''" "[(''X'', example_override), (''Y'', JNull)]"
      example_host example_catalog]
  by simp

text \<open>
  Claim C1 fails on the code. The builtin \<^verbatim>\<open>X\<close> has height \<^verbatim>\<open>200\<close>, width \<^verbatim>\<open>600\<close>
  and an id extractor; the custom \<^verbatim>\<open>X\<close> passes the check and supplies the mandatory
  fields and the height \<^verbatim>\<open>300px\<close>. The resolved \<^verbatim>\<open>X\<close> has the custom height, and its
  width and id extractor are \<^verbatim>\<open>undefined\<close>: the custom definition is first copied into
  an object that holds all six known fields, and \<^verbatim>\<open>Object.assign\<close> copies the
  \<^verbatim>\<open>undefined\<close> ones over the builtin values.
\<close>

theorem custom_override_clears_builtin_fields:
  "get_prop (get_prop (JObj example_catalog) ''X'') ''height'' = JNum 200
   \<and> get_prop (get_prop (JObj example_catalog) ''X'') ''width'' = JNum 600
   \<and> get_prop (get_prop (JObj example_catalog) ''X'') ''id'' = JFun default_id
   \<and> get_prop example_override ''height'' = JStr ''300px''
   \<and> css_supports example_host ''height'' (JStr ''300px'')
   \<and> get_prop example_override ''width'' = JUndefined
   \<and> get_prop example_override ''id'' = JUndefined
   \<and> \<not> rejected example_host example_override
   \<and> prepare example_host example_catalog (with_services [(''X'', example_override)]) =
       Inr ([(''X'', JObj [(''regex'', JRegExp ''x.example/v/(.*)'' (tail_pattern ''x.example/v/'')),
                          (''embedUrl'', JStr ''https://x.example/e/<%= remote_id %>''),
                          (''html'', JStr ''<iframe></iframe>''),
                          (''height'', JStr ''300px''), (''width'', JUndefined),
                          (''id'', JUndefined)])],
            [(''X'', JRegExp ''x.example/v/(.*)'' (tail_pattern ''x.example/v/''))])"
  by (simp add: prepare_def with_services_def object_entries_def Let_def example_override_def
      example_catalog_def checkServiceConfig_def js_and_def example_host_def known_fields_def
      merge_entry_def js_in_def set_prop_def object_assign_def is_array_index_def is_digit_def
      object_prototype_def object_prototype_names_def rejected_def)

section \<open>What the merge of the resolver does\<close>

text \<open>Writing a property makes it read the value written and leaves the others.\<close>

lemma map_of_replace_same:
  "k \<in> fst ` set kvs \<Longrightarrow>
     map_of (map (\<lambda>p. if fst p = k then (fst p, v) else p) kvs) k = Some v"
  by (induction kvs) auto

lemma map_of_replace_other:
  "x \<noteq> k \<Longrightarrow> map_of (map (\<lambda>p. if fst p = k then (fst p, v) else p) kvs) x = map_of kvs x"
  by (induction kvs) (simp_all split: if_splits)

lemma replace_as_pairs:
  "(\<lambda>(k', v'). if k' = k then (k', v) else (k', v')) = (\<lambda>p. if fst p = k then (fst p, v) else p)"
  by (rule ext) (simp add: case_prod_beta)

lemma map_of_put_index:
  "map_of (put_index k v kvs) k' = (if k' = k then Some v else map_of kvs k')"
  if "k \<notin> fst ` set kvs"
  using that by (induction kvs) auto

lemma map_of_set_prop:
  assumes "k \<noteq> ''__proto__''"
  shows "map_of (set_prop k v kvs) k' = (if k' = k then Some v else map_of kvs k')"
proof (cases "k \<in> fst ` set kvs")
  case True
  with assms show ?thesis
    by (simp add: set_prop_def replace_as_pairs map_of_replace_same map_of_replace_other
        del: image_eqI)
next
  case False
  then have "map_of kvs k = None" by (simp add: map_of_eq_None_iff)
  with False assms show ?thesis
    by (auto simp add: set_prop_def map_of_put_index map_add_def split: option.splits)
qed

text \<open>
  The override in general: when a custom definition meets an entry of the same key, each
  of the six known fields of the result reads what the custom definition reads there,
  \<^verbatim>\<open>undefined\<close> included, whatever the entry held.
\<close>

lemma object_assign_known_fields:
  "object_assign [old, known_fields c] =
     set_prop ''id'' (get_prop c ''id'')
       (set_prop ''width'' (get_prop c ''width'')
         (set_prop ''height'' (get_prop c ''height'')
           (set_prop ''html'' (get_prop c ''html'')
             (set_prop ''embedUrl'' (get_prop c ''embedUrl'')
               (set_prop ''regex'' (get_prop c ''regex'')
                 (object_assign [old]))))))"
  by (simp add: object_assign_def known_fields_def)

lemma override_takes_all_known_fields:
  assumes "f \<in> {''regex'', ''embedUrl'', ''html'', ''height'', ''width'', ''id''}"
  shows "get_prop (JObj (object_assign [old, known_fields c])) f = get_prop c f"
  using assms unfolding object_assign_known_fields
  by (auto simp add: map_of_set_prop)

lemma merge_entry_override:
  assumes "key \<in> fst ` set result" and "key \<noteq> ''__proto__''"
    and "f \<in> {''regex'', ''embedUrl'', ''html'', ''height'', ''width'', ''id''}"
  shows "get_prop (get_prop (JObj (merge_entry result (key, known_fields c))) key) f = get_prop c f"
proof -
  from assms(1) have "js_in key result" by (simp add: js_in_def)
  then have "map_of (merge_entry result (key, known_fields c)) key =
      Some (JObj (object_assign [get_prop (JObj result) key, known_fields c]))"
    using assms(2) by (simp add: merge_entry_def map_of_set_prop)
  then show ?thesis
    using override_takes_all_known_fields [OF assms(3)] by simp
qed

text \<open>
  The order of the keys in general: a new key that is an array index goes among the
  array indices at the head of the object, by its value; any other new key goes to the
  end; a key the object has keeps its place; \<^verbatim>\<open>__proto__\<close> makes no key.
\<close>

lemma put_index_key_order:
  "map fst (put_index k v kvs) =
     insort_key decimal_value k (takeWhile is_array_index (map fst kvs))
     @ dropWhile is_array_index (map fst kvs)"
  by (induction kvs) auto

lemma replaced_keys:
  "map fst (map (\<lambda>(k', v'). if k' = k then (k', v) else (k', v')) kvs) = map fst kvs"
  by (induction kvs) auto

lemma set_prop_key_order_general:
  assumes "map fst kvs = idx @ oth" and "\<forall>x \<in> set idx. is_array_index x"
    and "\<forall>x \<in> set oth. \<not> is_array_index x"
  shows "map fst (set_prop k v kvs) =
     (if k = ''__proto__'' then idx @ oth
      else if is_array_index k
        then (if k \<in> set idx then idx else insort_key decimal_value k idx) @ oth
        else idx @ (if k \<in> set oth then oth else oth @ [k]))"
proof -
  have keys: "fst ` set kvs = set idx \<union> set oth"
    using assms(1) by (metis image_set set_append)
  have tw: "takeWhile is_array_index (map fst kvs) = idx"
    unfolding assms(1) using assms(2,3) by (simp add: takeWhile_append2 takeWhile_eq_Nil_iff)
       (metis list.set_sel(1) takeWhile_eq_Nil_iff)
  from takeWhile_dropWhile_id [of is_array_index "map fst kvs"]
  have "idx @ dropWhile is_array_index (map fst kvs) = map fst kvs" by (simp only: tw)
  then have dw: "dropWhile is_array_index (map fst kvs) = oth"
    using assms(1) by simp
  show ?thesis
  proof (cases "k = ''__proto__''")
    case True
    with assms(1) show ?thesis by (simp add: set_prop_def)
  next
    case False
    show ?thesis
    proof (cases "k \<in> fst ` set kvs")
      case True
      with False have "set_prop k v kvs = map (\<lambda>(k', v'). if k' = k then (k', v) else (k', v')) kvs"
        by (simp add: set_prop_def)
      then have "map fst (set_prop k v kvs) = idx @ oth"
        unfolding replaced_keys assms(1) by (simp only: replaced_keys assms(1))
      moreover from True keys assms(2,3) have "is_array_index k \<Longrightarrow> k \<in> set idx"
        and "\<not> is_array_index k \<Longrightarrow> k \<in> set oth" by auto
      ultimately show ?thesis using False by auto
    next
      case notin: False
      with keys have "k \<notin> set idx" "k \<notin> set oth" by auto
      with False notin show ?thesis
        by (simp add: set_prop_def put_index_key_order tw dw)
           (simp add: assms(1))
    qed
  qed
qed

lemma merge_entry_sets:
  "map fst (merge_entry result e) = map fst (set_prop (fst e) v result)"
  by (cases "fst e = ''__proto__''")
     (auto simp add: merge_entry_def Let_def set_prop_def replaced_keys put_index_key_order)

lemma insertion_order_snoc:
  "insertion_order (ks @ [k]) =
     (if k \<in> set (insertion_order ks) then insertion_order ks else insertion_order ks @ [k])"
  by (simp add: insertion_order_def)

lemma insertion_order_set: "set (insertion_order ks) = set ks"
proof (induction ks rule: rev_induct)
  case Nil
  then show ?case by (simp add: insertion_order_def)
next
  case (snoc k ks)
  then show ?case by (auto simp add: insertion_order_snoc)
qed

lemma index_order_snoc:
  "is_array_index k \<Longrightarrow> index_order (ks @ [k]) =
     (if k \<in> set (index_order ks) then index_order ks
      else insort_key decimal_value k (index_order ks))"
  by (simp add: index_order_def)

lemma index_order_skip: "\<not> is_array_index k \<Longrightarrow> index_order (ks @ [k]) = index_order ks"
  by (simp add: index_order_def)

lemma index_order_set: "set (index_order ks) = {k \<in> set ks. is_array_index k}"
proof (induction ks rule: rev_induct)
  case Nil
  then show ?case by (simp add: index_order_def)
next
  case (snoc k ks)
  then show ?case
    by (cases "is_array_index k") (auto simp add: index_order_snoc index_order_skip set_insort_key)
qed

lemma index_order_sorted: "sorted (map decimal_value (index_order ks))"
proof (induction ks rule: rev_induct)
  case Nil
  then show ?case by (simp add: index_order_def)
next
  case (snoc k ks)
  then show ?case
    by (cases "is_array_index k") (simp_all add: index_order_snoc index_order_skip sorted_insort_key)
qed

lemma registry_key_order_general:
  "map fst (foldl merge_entry [] es) =
     index_order (map fst es)
     @ insertion_order (filter (\<lambda>k. \<not> is_array_index k \<and> k \<noteq> ''__proto__'') (map fst es))"
proof (induction es rule: rev_induct)
  case Nil
  then show ?case by (simp add: index_order_def insertion_order_def)
next
  case (snoc e es)
  let ?idx = "index_order (map fst es)"
  let ?oth = "insertion_order (filter (\<lambda>k. \<not> is_array_index k \<and> k \<noteq> ''__proto__'') (map fst es))"
  have i: "\<forall>x \<in> set ?idx. is_array_index x" by (simp add: index_order_set)
  have o: "\<forall>x \<in> set ?oth. \<not> is_array_index x" by (simp add: insertion_order_set)
  have "map fst (foldl merge_entry [] (es @ [e])) =
          map fst (set_prop (fst e) (snd e) (foldl merge_entry [] es))"
    by (simp add: merge_entry_sets [of _ _ "snd e"])
  also have "\<dots> =
     (if fst e = ''__proto__'' then ?idx @ ?oth
      else if is_array_index (fst e)
        then (if fst e \<in> set ?idx then ?idx else insort_key decimal_value (fst e) ?idx) @ ?oth
        else ?idx @ (if fst e \<in> set ?oth then ?oth else ?oth @ [fst e]))"
    by (rule set_prop_key_order_general [OF snoc i o])
  also have "\<dots> = index_order (map fst (es @ [e]))
     @ insertion_order (filter (\<lambda>k. \<not> is_array_index k \<and> k \<noteq> ''__proto__'') (map fst (es @ [e])))"
  proof (cases "is_array_index (fst e)")
    case True
    then have "fst e \<noteq> ''__proto__''" by (auto simp add: is_array_index_def is_digit_def)
    with True show ?thesis by (simp add: index_order_snoc)
  next
    case False
    then show ?thesis by (simp add: index_order_skip insertion_order_snoc)
  qed
  finally show ?case .
qed

section \<open>Properties of the matcher\<close>

lemma hasOwnProperty_own:
  assumes "''hasOwnProperty'' \<notin> fst ` set services" and "key \<in> fst ` set services"
  shows "hasOwnProperty services key = Inr True"
proof -
  from assms(1) have "map_of services ''hasOwnProperty'' = None" by (simp add: map_of_eq_None_iff)
  with assms(2) show ?thesis by (simp add: hasOwnProperty_def)
qed

lemma first_match_skips:
  assumes "''hasOwnProperty'' \<notin> fst ` set services" and "set earlier \<subseteq> set services"
    and "\<forall>(k, d) \<in> set earlier. \<exists>src r. get_prop d ''regex'' = JRegExp src r \<and> r url = None"
  shows "first_match services (earlier @ rest) url = first_match services rest url"
  using assms(2,3)
proof (induction earlier)
  case Nil
  then show ?case by simp
next
  case (Cons e earlier)
  obtain k d where e: "e = (k, d)" by (cases e)
  from Cons.prems e obtain src r where r: "get_prop d ''regex'' = JRegExp src r" "r url = None"
    by auto
  then have n: "\<not> nullish d" by (cases d) auto
  from Cons.prems(1) e have "k \<in> fst ` set services" by force
  from hasOwnProperty_own [OF assms(1) this] have own: "hasOwnProperty services k = Inr True" .
  from Cons have "first_match services (earlier @ rest) url = first_match services rest url" by simp
  with r n e own show ?case by simp
qed

lemma first_match_hit:
  assumes "''hasOwnProperty'' \<notin> fst ` set services" and "(key, def) \<in> set services"
    and "get_prop def ''regex'' = JRegExp src regex" and "regex url \<noteq> None"
  shows "first_match services ((key, def) # later) url = Inr (Some (key, url))"
proof -
  from assms(3) have n: "\<not> nullish def" by (cases "def") auto
  from assms(2) have "key \<in> fst ` set services" by force
  from hasOwnProperty_own [OF assms(1) this] have "hasOwnProperty services key = Inr True" .
  with assms(3,4) n show ?thesis by simp
qed

text \<open>A service named \<^verbatim>\<open>hasOwnProperty\<close> that is an object, as every custom definition
  is, takes the place of the method the loop calls: matching raises at the first key.\<close>

lemma own_hasOwnProperty_raises:
  assumes "map_of services ''hasOwnProperty'' = Some (JObj d)" and "candidate_url str \<noteq> []"
  shows "matchService services str = Inl TypeError"
proof -
  from assms(1) have h: "hasOwnProperty services key = Inl TypeError" for key
    by (simp add: hasOwnProperty_def)
  from assms(1) have "services \<noteq> []" by auto
  then obtain k v rest where "services = (k, v) # rest" by (cases services) auto
  then have "first_match services services (candidate_url str) = Inl TypeError"
    using h [of k] by (metis first_match.simps(2) sum.simps(5))
  with assms(2) show ?thesis by (simp add: matchService_def)
qed

text \<open>What the resolver merges: the entries of the spec, in its words.\<close>

lemma is_true_iff: "(typeof v = ''boolean'' \<and> is_true v) = (v = JBool True)"
  by (cases v) auto

lemma enabled_builtins_source:
  "(if map fst (filter (\<lambda>(key, v). typeof v = ''boolean'' \<and> is_true v) ents) \<noteq> []
    then filter (\<lambda>(key, v). key \<in> set (map fst (filter (\<lambda>(key, v). typeof v = ''boolean'' \<and> is_true v) ents))) SERVICES
    else SERVICES) = enabled_builtins SERVICES ents"
proof -
  have f: "filter (\<lambda>(key, v). typeof v = ''boolean'' \<and> is_true v) ents
             = filter (\<lambda>(key, v). v = JBool True) ents"
    by (simp add: is_true_iff)
  have s: "set (map fst (filter (\<lambda>(key, v). v = JBool True) ents)) = {k. (k, JBool True) \<in> set ents}"
    by force
  have e: "(map fst (filter (\<lambda>(key, v). v = JBool True) ents) \<noteq> []) = (\<exists>(k, v) \<in> set ents. v = JBool True)"
    by (induction ents) auto
  show ?thesis unfolding f s e by (simp add: enabled_builtins_def)
qed

lemma accepted_custom_source:
  "filter (\<lambda>(k, v). \<not> rejected H v) (filter (\<lambda>(key, v). typeof v = ''object'') ents)
     = accepted_custom H ents"
  by (induction ents) (auto simp add: accepted_custom_def)

lemma filter_checked_result:
  assumes "filter_checked H xs = Inr ys" and "\<forall>(k, v) \<in> set xs. typeof v = ''object''"
  shows "ys = filter (\<lambda>(k, v). \<not> rejected H v) xs"
  using assms
proof (induction xs arbitrary: ys)
  case Nil
  then show ?case by simp
next
  case (Cons x xs)
  obtain k v where x: "x = (k, v)" by (cases x)
  from Cons.prems(1) x obtain isValid where c: "checkServiceConfig H v = Inr isValid"
    by (cases "checkServiceConfig H v") auto
  from Cons.prems(1) x c obtain kept where kept: "filter_checked H xs = Inr kept"
    by (cases "filter_checked H xs") auto
  from Cons.prems(2) have "\<forall>(k, v) \<in> set xs. typeof v = ''object''" by simp
  from Cons.IH [OF kept this] have k: "kept = filter (\<lambda>(k, v). \<not> rejected H v) xs" .
  from Cons.prems(2) x have "typeof v = ''object''" by simp
  with c have "rejected H v = (\<not> truthy isValid)" by (simp add: rejected_def)
  with Cons.prems(1) x c kept k show ?case by auto
qed

lemma prepare_registry:
  assumes "prepare H SERVICES (with_services ents) = Inr (registry, patterns)"
  shows "registry = foldl merge_entry []
           (enabled_builtins SERVICES ents
            @ map (\<lambda>(key, svc). (key, known_fields svc)) (accepted_custom H ents))"
proof -
  from assms obtain checked where
    c: "filter_checked H (filter (\<lambda>(key, v). typeof v = ''object'') ents) = Inr checked"
    by (cases "filter_checked H (filter (\<lambda>(key, v). typeof v = ''object'') ents)")
       (auto simp add: prepare_def with_services_def object_entries_def Let_def simp del: filter_filter)
  have "\<forall>(k, v) \<in> set (filter (\<lambda>(key, v). typeof v = ''object'') ents). typeof v = ''object''"
    by auto
  from filter_checked_result [OF c this]
  have "checked = accepted_custom H ents" unfolding accepted_custom_source .
  with assms c show ?thesis
    unfolding prepare_def Let_def enabled_builtins_source
    by (simp add: with_services_def object_entries_def split: sum.splits del: filter_filter)
qed

lemma known_fields_keys: "map fst (map (\<lambda>(key, svc). (key, known_fields svc)) xs) = map fst xs"
  by (induction xs) auto

text \<open>
  Claim C3, as the code has it, in two parts. The loop: the pasted text gives a candidate
  URL that is not empty and no service is named \<^verbatim>\<open>hasOwnProperty\<close>; if the registry, in
  its iteration order, has a service whose pattern matches the URL, and every service
  before it has a pattern that does not, then the matcher returns that service with the
  URL, whatever comes after it: services further on, whether their patterns match or not,
  are not looked at. The order: in the registry that the resolver installs, the keys that
  are array indices come first, in ascending order of their values, and the other keys
  follow in insertion order, the enabled builtins in catalog order and then the custom
  definitions that pass validation; \<^verbatim>\<open>__proto__\<close> is no key of it. So when no inserted
  key is an array index or \<^verbatim>\<open>__proto__\<close>, the iteration order is the insertion order.
\<close>

theorem first_match_wins:
  "(candidate_url str = url \<and> url \<noteq> [] \<and> ''hasOwnProperty'' \<notin> fst ` set services
      \<and> services = earlier @ (key, def) # later
      \<and> (\<forall>(k, d) \<in> set earlier. \<exists>src r. get_prop d ''regex'' = JRegExp src r \<and> r url = None)
      \<and> get_prop def ''regex'' = JRegExp src regex \<and> regex url \<noteq> None
    \<longrightarrow> matchService services str = Inr (Some (key, url)))
   \<and> (prepare H SERVICES (with_services ents) = Inr (registry, patterns)
    \<longrightarrow> map fst registry =
          index_order (inserted_keys H SERVICES ents)
          @ insertion_order (filter (\<lambda>k. \<not> is_array_index k \<and> k \<noteq> ''__proto__'')
                               (inserted_keys H SERVICES ents))
        \<and> sorted (map decimal_value (index_order (inserted_keys H SERVICES ents)))
        \<and> ((\<forall>k \<in> set (inserted_keys H SERVICES ents). k \<noteq> ''__proto__'' \<and> \<not> is_array_index k)
             \<longrightarrow> map fst registry = insertion_order (inserted_keys H SERVICES ents)))"
proof (intro conjI impI)
  assume a: "candidate_url str = url \<and> url \<noteq> [] \<and> ''hasOwnProperty'' \<notin> fst ` set services
      \<and> services = earlier @ (key, def) # later
      \<and> (\<forall>(k, d) \<in> set earlier. \<exists>src r. get_prop d ''regex'' = JRegExp src r \<and> r url = None)
      \<and> get_prop def ''regex'' = JRegExp src regex \<and> regex url \<noteq> None"
  from a have u: "candidate_url str = url" by (elim conjE)
  from a have n: "url \<noteq> []" by (elim conjE)
  from a have h: "''hasOwnProperty'' \<notin> fst ` set services" by (elim conjE)
  from a have s: "services = earlier @ (key, def) # later" by (elim conjE)
  from a have e: "\<forall>(k, d) \<in> set earlier. \<exists>src r. get_prop d ''regex'' = JRegExp src r \<and> r url = None"
    by (elim conjE)
  from a have r: "get_prop def ''regex'' = JRegExp src regex" by (elim conjE)
  from a have x: "regex url \<noteq> None" by (elim conjE)
  from s have sub: "set earlier \<subseteq> set services" and mem: "(key, def) \<in> set services" by auto
  have "first_match services (earlier @ (key, def) # later) url
          = first_match services ((key, def) # later) url"
    by (rule first_match_skips [OF h sub e])
  also have "\<dots> = Inr (Some (key, url))" by (rule first_match_hit [OF h mem r x])
  finally have "first_match services services url = Inr (Some (key, url))"
    using s by simp
  with u n show "matchService services str = Inr (Some (key, url))"
    by (simp add: matchService_def)
next
  show "sorted (map decimal_value (index_order (inserted_keys H SERVICES ents)))"
    by (rule index_order_sorted)
next
  assume p: "prepare H SERVICES (with_services ents) = Inr (registry, patterns)"
  let ?es = "enabled_builtins SERVICES ents
            @ map (\<lambda>(key, svc). (key, known_fields svc)) (accepted_custom H ents)"
  have reg: "registry = foldl merge_entry [] ?es" by (rule prepare_registry [OF p])
  have m: "map fst ?es = inserted_keys H SERVICES ents"
    unfolding map_append known_fields_keys inserted_keys_def ..
  from registry_key_order_general [of ?es]
  show general: "map fst registry =
          index_order (inserted_keys H SERVICES ents)
          @ insertion_order (filter (\<lambda>k. \<not> is_array_index k \<and> k \<noteq> ''__proto__'')
                               (inserted_keys H SERVICES ents))"
    unfolding reg m .
  assume keys: "\<forall>k \<in> set (inserted_keys H SERVICES ents). k \<noteq> ''__proto__'' \<and> \<not> is_array_index k"
  then have "filter is_array_index (inserted_keys H SERVICES ents) = []"
    by (simp add: filter_empty_conv)
  then have i: "index_order (inserted_keys H SERVICES ents) = []" by (simp add: index_order_def)
  from keys have f: "filter (\<lambda>k. \<not> is_array_index k \<and> k \<noteq> ''__proto__'')
      (inserted_keys H SERVICES ents) = inserted_keys H SERVICES ents"
    by (simp add: filter_id_conv)
  from general show "map fst registry = insertion_order (inserted_keys H SERVICES ents)"
    unfolding i f by simp
qed

text \<open>
  Two registries. In the example registry the patterns of \<^verbatim>\<open>clips\<close> and of \<^verbatim>\<open>pages\<close>
  both match the URL and the one of \<^verbatim>\<open>videos\<close> before them does not: the result is
  \<^verbatim>\<open>clips\<close>. The registry resolved from the builtin \<^verbatim>\<open>X\<close> and the custom \<^verbatim>\<open>Z\<close> has
  the keys in that order; both patterns match the URL and the result is \<^verbatim>\<open>X\<close>.
\<close>

theorem first_match_wins_witness:
  "candidate_url ''https://clips.example/7'' = ''https://clips.example/7''
   \<and> tail_pattern ''videos.example/'' ''https://clips.example/7'' = None
   \<and> literal_pattern ''clips.example'' ''https://clips.example/7'' \<noteq> None
   \<and> tail_pattern ''example/'' ''https://clips.example/7'' \<noteq> None
   \<and> matchService example_services ''https://clips.example/7''
       = Inr (Some (''clips'', ''https://clips.example/7''))
   \<and> tail_pattern ''x.example/'' ''https://x.example/v/9'' \<noteq> None
   \<and> tail_pattern ''x.example/v/'' ''https://x.example/v/9'' \<noteq> None
   \<and> inserted_keys example_host example_catalog [(''Z'', example_override)] = [''X'', ''Z'']
   \<and> (case prepare example_host example_catalog (with_services [(''Z'', example_override)]) of
         Inl e \<Rightarrow> False
       | Inr (registry, patterns) \<Rightarrow>
           map fst registry = [''X'', ''Z'']
           \<and> matchService registry ''https://x.example/v/9''
               = Inr (Some (''X'', ''https://x.example/v/9'')))"
proof -
  have url: "candidate_url ''https://clips.example/7'' = ''https://clips.example/7''"
    by (simp add: candidate_url_def)
  have nonempty: "''https://clips.example/7'' \<noteq> []" by simp
  have videos: "tail_pattern ''videos.example/'' ''https://clips.example/7'' = None" by simp
  have clips: "literal_pattern ''clips.example'' ''https://clips.example/7'' \<noteq> None"
    by (simp add: literal_pattern_def)
  have pages: "tail_pattern ''example/'' ''https://clips.example/7'' \<noteq> None" by simp
  have own: "''hasOwnProperty'' \<notin> fst ` set example_services" by (simp add: example_services_def)
  have split: "example_services =
      [(''videos'', JObj [(''regex'', JRegExp ''videos.example/(.*)'' (tail_pattern ''videos.example/'')),
                          (''embedUrl'', JStr ''https://videos.example/embed/<%= remote_id %>''),
                          (''html'', JStr ''<iframe></iframe>'')])]
      @ (''clips'', JObj [(''regex'', JRegExp ''clips.example'' (literal_pattern ''clips.example'')),
                        (''embedUrl'', JStr ''https://clips.example/embed/<%= remote_id %>''),
                        (''html'', JStr ''<iframe></iframe>''),
                        (''height'', JNum 200), (''width'', JNum 600)])
      # [(''pages'', JObj [(''regex'', JRegExp ''example/(.*)'' (tail_pattern ''example/'')),
                        (''embedUrl'', JStr ''https://pages.example/<%= remote_id %>/view''),
                        (''html'', JStr ''<iframe></iframe>'')])]"
    by (simp add: example_services_def)
  have earlier: "\<forall>(k, d) \<in> set [(''videos'', JObj [(''regex'', JRegExp ''videos.example/(.*)'' (tail_pattern ''videos.example/'')),
                          (''embedUrl'', JStr ''https://videos.example/embed/<%= remote_id %>''),
                          (''html'', JStr ''<iframe></iframe>'')])].
       \<exists>src r. get_prop d ''regex'' = JRegExp src r \<and> r ''https://clips.example/7'' = None"
    using videos by simp
  have regex: "get_prop (JObj [(''regex'', JRegExp ''clips.example'' (literal_pattern ''clips.example'')),
                        (''embedUrl'', JStr ''https://clips.example/embed/<%= remote_id %>''),
                        (''html'', JStr ''<iframe></iframe>''),
                        (''height'', JNum 200), (''width'', JNum 600)]) ''regex''
               = JRegExp ''clips.example'' (literal_pattern ''clips.example'')"
    by simp
  note loop = first_match_wins [THEN conjunct1, rule_format]
  note order = first_match_wins [THEN conjunct2, rule_format]
  from url nonempty own split earlier regex clips
  have "candidate_url ''https://clips.example/7'' = ''https://clips.example/7''
      \<and> ''https://clips.example/7'' \<noteq> [] \<and> ''hasOwnProperty'' \<notin> fst ` set example_services
      \<and> example_services =
          [(''videos'', JObj [(''regex'', JRegExp ''videos.example/(.*)'' (tail_pattern ''videos.example/'')),
                          (''embedUrl'', JStr ''https://videos.example/embed/<%= remote_id %>''),
                          (''html'', JStr ''<iframe></iframe>'')])]
          @ (''clips'', JObj [(''regex'', JRegExp ''clips.example'' (literal_pattern ''clips.example'')),
                        (''embedUrl'', JStr ''https://clips.example/embed/<%= remote_id %>''),
                        (''html'', JStr ''<iframe></iframe>''),
                        (''height'', JNum 200), (''width'', JNum 600)])
          # [(''pages'', JObj [(''regex'', JRegExp ''example/(.*)'' (tail_pattern ''example/'')),
                        (''embedUrl'', JStr ''https://pages.example/<%= remote_id %>/view''),
                        (''html'', JStr ''<iframe></iframe>'')])]
      \<and> (\<forall>(k, d) \<in> set [(''videos'', JObj [(''regex'', JRegExp ''videos.example/(.*)'' (tail_pattern ''videos.example/'')),
                          (''embedUrl'', JStr ''https://videos.example/embed/<%= remote_id %>''),
                          (''html'', JStr ''<iframe></iframe>'')])].
            \<exists>src r. get_prop d ''regex'' = JRegExp src r \<and> r ''https://clips.example/7'' = None)
      \<and> get_prop (JObj [(''regex'', JRegExp ''clips.example'' (literal_pattern ''clips.example'')),
                        (''embedUrl'', JStr ''https://clips.example/embed/<%= remote_id %>''),
                        (''html'', JStr ''<iframe></iframe>''),
                        (''height'', JNum 200), (''width'', JNum 600)]) ''regex''
               = JRegExp ''clips.example'' (literal_pattern ''clips.example'')
      \<and> literal_pattern ''clips.example'' ''https://clips.example/7'' \<noteq> None"
    by (intro conjI)
  then have one: "matchService example_services ''https://clips.example/7''
       = Inr (Some (''clips'', ''https://clips.example/7''))"
    by (rule loop)
  let ?X = "JObj [(''regex'', JRegExp ''x.example/(.*)'' (tail_pattern ''x.example/'')),
                  (''embedUrl'', JStr ''https://x.example/embed/<%= remote_id %>''),
                  (''html'', JStr ''<iframe></iframe>''),
                  (''height'', JNum 200), (''width'', JNum 600),
                  (''id'', JFun default_id)]"
  let ?Z = "JObj [(''regex'', JRegExp ''x.example/v/(.*)'' (tail_pattern ''x.example/v/'')),
                  (''embedUrl'', JStr ''https://x.example/e/<%= remote_id %>''),
                  (''html'', JStr ''<iframe></iframe>''),
                  (''height'', JStr ''300px''), (''width'', JUndefined),
                  (''id'', JUndefined)]"
  have p: "prepare example_host example_catalog (with_services [(''Z'', example_override)]) =
       Inr ([(''X'', ?X), (''Z'', ?Z)],
            [(''X'', JRegExp ''x.example/(.*)'' (tail_pattern ''x.example/'')),
             (''Z'', JRegExp ''x.example/v/(.*)'' (tail_pattern ''x.example/v/''))])"
    by (simp add: prepare_def with_services_def object_entries_def Let_def example_override_def
      example_catalog_def checkServiceConfig_def js_and_def example_host_def known_fields_def
      merge_entry_def js_in_def set_prop_def object_assign_def is_array_index_def is_digit_def
      object_prototype_def object_prototype_names_def)
  have ins: "inserted_keys example_host example_catalog [(''Z'', example_override)] = [''X'', ''Z'']"
    by (simp add: inserted_keys_def enabled_builtins_def accepted_custom_def example_catalog_def
        example_override_accepted) (simp add: example_override_def)
  have keys: "\<forall>k \<in> set [''X'', ''Z'']. k \<noteq> ''__proto__'' \<and> \<not> is_array_index k"
    by (simp add: is_array_index_def is_digit_def)
  have ord: "insertion_order [''X'', ''Z''] = [''X'', ''Z'']" by (simp add: insertion_order_def)
  from order [OF p] have "(\<forall>k \<in> set (inserted_keys example_host example_catalog [(''Z'', example_override)]).
        k \<noteq> ''__proto__'' \<and> \<not> is_array_index k)
      \<longrightarrow> map fst [(''X'', ?X), (''Z'', ?Z)]
            = insertion_order (inserted_keys example_host example_catalog [(''Z'', example_override)])"
    by (elim conjE)
  then have two: "map fst [(''X'', ?X), (''Z'', ?Z)] = [''X'', ''Z'']"
    unfolding ins ord using keys by (rule mp)
  have x: "tail_pattern ''x.example/'' ''https://x.example/v/9'' \<noteq> None" by simp
  have z: "tail_pattern ''x.example/v/'' ''https://x.example/v/9'' \<noteq> None" by simp
  have url': "candidate_url ''https://x.example/v/9'' = ''https://x.example/v/9''"
    by (simp add: candidate_url_def)
  have nonempty': "''https://x.example/v/9'' \<noteq> []" by simp
  have own': "''hasOwnProperty'' \<notin> fst ` set [(''X'', ?X), (''Z'', ?Z)]" by simp
  have split': "[(''X'', ?X), (''Z'', ?Z)] = [] @ (''X'', ?X) # [(''Z'', ?Z)]" by simp
  have earlier': "\<forall>(k, d) \<in> set []. \<exists>src r. get_prop d ''regex'' = JRegExp src r
                    \<and> r ''https://x.example/v/9'' = None"
    by simp
  have regex': "get_prop ?X ''regex'' = JRegExp ''x.example/(.*)'' (tail_pattern ''x.example/'')"
    by simp
  from url' nonempty' own' split' earlier' regex' x
  have "candidate_url ''https://x.example/v/9'' = ''https://x.example/v/9''
      \<and> ''https://x.example/v/9'' \<noteq> []
      \<and> ''hasOwnProperty'' \<notin> fst ` set [(''X'', ?X), (''Z'', ?Z)]
      \<and> [(''X'', ?X), (''Z'', ?Z)] = [] @ (''X'', ?X) # [(''Z'', ?Z)]
      \<and> (\<forall>(k, d) \<in> set []. \<exists>src r. get_prop d ''regex'' = JRegExp src r
                    \<and> r ''https://x.example/v/9'' = None)
      \<and> get_prop ?X ''regex'' = JRegExp ''x.example/(.*)'' (tail_pattern ''x.example/'')
      \<and> tail_pattern ''x.example/'' ''https://x.example/v/9'' \<noteq> None"
    by (intro conjI)
  then have three: "matchService [(''X'', ?X), (''Z'', ?Z)] ''https://x.example/v/9''
       = Inr (Some (''X'', ''https://x.example/v/9''))"
    by (rule loop)
  from two three have "case prepare example_host example_catalog (with_services [(''Z'', example_override)]) of
         Inl e \<Rightarrow> False
       | Inr (registry, patterns) \<Rightarrow>
           map fst registry = [''X'', ''Z'']
           \<and> matchService registry ''https://x.example/v/9''
               = Inr (Some (''X'', ''https://x.example/v/9''))"
    unfolding p by simp
  with url videos clips pages one x z ins show ?thesis by blast
qed

text \<open>
  Claim C3 as stated fails for a key that is an array index. The custom \<^verbatim>\<open>7\<close> comes
  after the builtin \<^verbatim>\<open>X\<close> in insertion order, yet it is the first key of the registry,
  an object enumerating its integer keys before the others. Both patterns match the URL,
  and the matcher returns \<^verbatim>\<open>7\<close>, not \<^verbatim>\<open>X\<close>.
\<close>

theorem array_index_key_counterexample:
  "inserted_keys example_host example_catalog [(''7'', example_override)] = [''X'', ''7'']
   \<and> tail_pattern ''x.example/'' ''https://x.example/v/9'' \<noteq> None
   \<and> tail_pattern ''x.example/v/'' ''https://x.example/v/9'' \<noteq> None
   \<and> (case prepare example_host example_catalog example_indexed of
         Inl e \<Rightarrow> False
       | Inr (registry, patterns) \<Rightarrow>
           map fst registry = [''7'', ''X'']
           \<and> matchService registry ''https://x.example/v/9''
               = Inr (Some (''7'', ''https://x.example/v/9'')))"
proof -
  have ord: "inserted_keys example_host example_catalog [(''7'', example_override)] = [''X'', ''7'']"
    by (simp add: inserted_keys_def enabled_builtins_def accepted_custom_def example_catalog_def
        example_override_accepted) (simp add: example_override_def)
  have x: "tail_pattern ''x.example/'' ''https://x.example/v/9'' \<noteq> None" by simp
  have z: "tail_pattern ''x.example/v/'' ''https://x.example/v/9'' \<noteq> None" by simp
  have p: "prepare example_host example_catalog example_indexed =
       Inr ([(''7'', JObj [(''regex'', JRegExp ''x.example/v/(.*)'' (tail_pattern ''x.example/v/'')),
                          (''embedUrl'', JStr ''https://x.example/e/<%= remote_id %>''),
                          (''html'', JStr ''<iframe></iframe>''),
                          (''height'', JStr ''300px''), (''width'', JUndefined),
                          (''id'', JUndefined)]),
             (''X'', JObj [(''regex'', JRegExp ''x.example/(.*)'' (tail_pattern ''x.example/'')),
                          (''embedUrl'', JStr ''https://x.example/embed/<%= remote_id %>''),
                          (''html'', JStr ''<iframe></iframe>''),
                          (''height'', JNum 200), (''width'', JNum 600),
                          (''id'', JFun default_id)])],
            [(''7'', JRegExp ''x.example/v/(.*)'' (tail_pattern ''x.example/v/'')),
             (''X'', JRegExp ''x.example/(.*)'' (tail_pattern ''x.example/''))])"
    by (simp add: prepare_def example_indexed_def with_services_def object_entries_def Let_def
      example_override_def
      example_catalog_def checkServiceConfig_def js_and_def example_host_def known_fields_def
      merge_entry_def js_in_def set_prop_def object_assign_def is_array_index_def is_digit_def
      decimal_value_def object_prototype_def object_prototype_names_def)
  have m: "case prepare example_host example_catalog example_indexed of
         Inl e \<Rightarrow> False
       | Inr (registry, patterns) \<Rightarrow>
           map fst registry = [''7'', ''X'']
           \<and> matchService registry ''https://x.example/v/9''
               = Inr (Some (''7'', ''https://x.example/v/9''))"
    unfolding p
    by (simp add: matchService_def candidate_url_def hasOwnProperty_def)
  from ord x z m show ?thesis by blast
qed

section \<open>Waiting for quiescence\<close>

lemma mutation_stopped:
  assumes "\<not> observing d" and "timer d = None"
  shows "foldl (mutation delay) d bs = d"
proof (induction bs)
  case Nil
  then show ?case by simp
next
  case (Cons b bs)
  from assms have "mutation delay d b = d" by (simp add: mutation_def)
  with Cons show ?case by simp
qed

lemma detector_pending:
  assumes "observing d" and "timer d = Some (b + delay)" and "resolved_at d = []"
  shows "resolved_at (fire (foldl (mutation delay) d bs)) = [quiescence delay b bs]"
  using assms
proof (induction bs arbitrary: d b)
  case Nil
  then show ?case by (simp add: fire_def)
next
  case (Cons c cs)
  show ?case
  proof (cases "b + delay \<le> c")
    case True
    let ?d = "d\<lparr>timer := None, resolved_at := [b + delay], observing := False\<rparr>"
    from True Cons.prems have m: "mutation delay d c = ?d"
      by (simp add: mutation_def fire_def)
    have "foldl (mutation delay) ?d cs = ?d" by (rule mutation_stopped) simp_all
    with m True show ?thesis by (simp add: fire_def)
  next
    case False
    let ?d = "d\<lparr>timer := Some (c + delay)\<rparr>"
    from False Cons.prems have m: "mutation delay d c = ?d" by (simp add: mutation_def)
    from Cons.prems have "resolved_at (fire (foldl (mutation delay) ?d cs)) = [quiescence delay c cs]"
      by (intro Cons.IH) simp_all
    with m False show ?thesis by simp
  qed
qed

lemma embedIsReady_quiescence:
  "embedIsReady (b # bs) = [quiescence PRELOADER_DELAY b bs]"
proof -
  let ?d = "\<lparr>timer = Some (b + PRELOADER_DELAY), resolved_at = [], observing = True\<rparr>"
  have "mutation PRELOADER_DELAY \<lparr>timer = None, resolved_at = [], observing = True\<rparr> b = ?d"
    by (simp add: mutation_def)
  moreover have "resolved_at (fire (foldl (mutation PRELOADER_DELAY) ?d bs))
      = [quiescence PRELOADER_DELAY b bs]"
    by (rule detector_pending) simp_all
  ultimately show ?thesis by (simp add: embedIsReady_def)
qed

lemma quiescence_first_gap:
  "\<exists>i < length (b # bs).
      quiescence delay b bs = (b # bs) ! i + delay
      \<and> (\<forall>j < i. (b # bs) ! Suc j < (b # bs) ! j + delay)
      \<and> (Suc i < length (b # bs) \<longrightarrow> (b # bs) ! i + delay \<le> (b # bs) ! Suc i)"
proof (induction bs arbitrary: b)
  case Nil
  then show ?case by simp
next
  case (Cons c cs)
  show ?case
  proof (cases "b + delay \<le> c")
    case True
    then have "quiescence delay b (c # cs) = (b # c # cs) ! 0 + delay
      \<and> (\<forall>j < 0. (b # c # cs) ! Suc j < (b # c # cs) ! j + delay)
      \<and> (Suc 0 < length (b # c # cs) \<longrightarrow> (b # c # cs) ! 0 + delay \<le> (b # c # cs) ! Suc 0)"
      by simp
    moreover have "0 < length (b # c # cs)" by simp
    ultimately show ?thesis by blast
  next
    case False
    from Cons [of c] obtain i where i: "i < length (c # cs)"
      "quiescence delay c cs = (c # cs) ! i + delay"
      "\<forall>j < i. (c # cs) ! Suc j < (c # cs) ! j + delay"
      "Suc i < length (c # cs) \<longrightarrow> (c # cs) ! i + delay \<le> (c # cs) ! Suc i"
      by blast
    have short: "\<forall>j < Suc i. (b # c # cs) ! Suc j < (b # c # cs) ! j + delay"
    proof (intro allI impI)
      fix j
      assume j: "j < Suc i"
      show "(b # c # cs) ! Suc j < (b # c # cs) ! j + delay"
      proof (cases j)
        case 0
        with False show ?thesis by simp
      next
        case (Suc j')
        with j i(3) show ?thesis by simp
      qed
    qed
    from False i(2) have "quiescence delay b (c # cs) = (b # c # cs) ! Suc i + delay" by simp
    moreover from i(1) have "Suc i < length (b # c # cs)" by simp
    moreover from i(4) have "Suc (Suc i) < length (b # c # cs)
        \<longrightarrow> (b # c # cs) ! Suc i + delay \<le> (b # c # cs) ! Suc (Suc i)" by simp
    ultimately show ?thesis using short by blast
  qed
qed

text \<open>
  Claim C9, over the detector of the spec. Without a mutation batch \<^verbatim>\<open>resolve\<close> is never
  called. With batches it is called exactly once, a quiet period after one of them: that
  batch is followed by no other one before the quiet period is over, and each batch
  before it is followed by the next one before its own quiet period is over. The quiet
  period is \<^verbatim>\<open>450\<close>.
\<close>

theorem quiescence_resolves_once:
  "PRELOADER_DELAY = 450
   \<and> (batches = [] \<longrightarrow> embedIsReady batches = [])
   \<and> (batches \<noteq> [] \<longrightarrow>
        (\<exists>i < length batches.
            embedIsReady batches = [batches ! i + PRELOADER_DELAY]
            \<and> (\<forall>j < i. batches ! Suc j < batches ! j + PRELOADER_DELAY)
            \<and> (Suc i < length batches \<longrightarrow> batches ! i + PRELOADER_DELAY \<le> batches ! Suc i)))"
proof (intro conjI impI)
  show "PRELOADER_DELAY = 450" by (simp add: PRELOADER_DELAY_def)
next
  assume "batches = []"
  then show "embedIsReady batches = []" by (simp add: embedIsReady_def fire_def)
next
  assume "batches \<noteq> []"
  then obtain b bs where b: "batches = b # bs" by (cases batches) auto
  from quiescence_first_gap [of b bs PRELOADER_DELAY]
  show "\<exists>i < length batches.
            embedIsReady batches = [batches ! i + PRELOADER_DELAY]
            \<and> (\<forall>j < i. batches ! Suc j < batches ! j + PRELOADER_DELAY)
            \<and> (Suc i < length batches \<longrightarrow> batches ! i + PRELOADER_DELAY \<le> batches ! Suc i)"
    unfolding b embedIsReady_quiescence by simp
qed

text \<open>Three bursts with gaps below the quiet period, a gap of \<^verbatim>\<open>700\<close>, and two more
  batches: \<^verbatim>\<open>resolve\<close> is called once, at \<^verbatim>\<open>750\<close>. Without a batch it is not called.\<close>

theorem quiescence_resolves_once_witness:
  "[0, 100, 300, 1000, 1100] \<noteq> ([] :: nat list)
   \<and> length (embedIsReady [0, 100, 300, 1000, 1100]) = 1
   \<and> embedIsReady [0, 100, 300, 1000, 1100] = [750]
   \<and> embedIsReady [] = []"
proof -
  have n: "[0, 100, 300, 1000, 1100] \<noteq> ([] :: nat list)" by simp
  note T = quiescence_resolves_once [of "[0, 100, 300, 1000, 1100]"]
  from T n obtain i where "embedIsReady [0, 100, 300, 1000, 1100]
      = [[0, 100, 300, 1000, 1100] ! i + PRELOADER_DELAY]" by blast
  then have once: "length (embedIsReady [0, 100, 300, 1000, 1100]) = 1" by simp
  have at: "embedIsReady [0, 100, 300, 1000, 1100] = [750]"
    by (simp add: embedIsReady_def mutation_def fire_def PRELOADER_DELAY_def)
  from quiescence_resolves_once [of "[]"] have none: "embedIsReady [] = []" by simp
  from n once at none show ?thesis by blast
qed

end
